theory Spec2Isabelle
  imports Complex_Main
begin

section \<open>Values shared by the components\<close>

text \<open>
  Exceptions of the JavaScript runtime and of the face-api library, as values. A call
  that can throw returns \<open>js_error + 'a\<close>, with \<open>Inl\<close> for the exception.
\<close>

datatype js_error = SyntaxError | TypeError | RangeError | LibraryError

text \<open>
  A JavaScript number as a distance can be: not a number, an infinity, or a finite
  double, read as the real number it denotes.
\<close>

datatype js_number = NaN | PosInfinity | NegInfinity | Finite real

text \<open>
  The literal \<open>0.6\<close> of source line 97 denotes the double nearest to 6/10, which is
  5404319552844595 / 2^53, a little below 6/10.
\<close>

definition double_0_6 :: real where
  "double_0_6 = 5404319552844595 / 9007199254740992"

text \<open>\<open>distance < 0.6\<close> on doubles: false for NaN.\<close>

fun below_threshold :: "js_number \<Rightarrow> bool" where
  "below_threshold NaN = False"
| "below_threshold PosInfinity = False"
| "below_threshold NegInfinity = True"
| "below_threshold (Finite r) = (r < double_0_6)"

text \<open>
  What \<open>JSON.parse\<close> can return. An object is the list of its own properties in
  insertion order; numbers are read as reals.
\<close>

datatype json =
    JNull
  | JBool bool
  | JNum real
  | JStr string
  | JArr "json list"
  | JObj "(string \<times> json) list"

text \<open>
  A gallery entry as it exists at run time: an object whose \<open>descriptor\<close> property
  holds the embedding (type \<open>'e\<close>, a \<open>Float32Array\<close> in the source) and whose other
  own properties (\<open>id\<close>, \<open>name\<close>, \<open>image\<close>, and whatever an imported file
  added) are kept as they are. The TypeScript annotation
  \<open>{id: string, name: string, descriptor: Float32Array, image: string}\<close> is erased at
  run time, and the import path does not check it.
\<close>

record 'e face =
  props :: "(string \<times> json) list"
  face_descriptor :: 'e

definition face_id :: "'e face \<Rightarrow> json option" where
  "face_id f = map_of (props f) ''id''"

definition face_name :: "'e face \<Rightarrow> json option" where
  "face_name f = map_of (props f) ''name''"

definition face_image :: "'e face \<Rightarrow> json option" where
  "face_image f = map_of (props f) ''image''"

text \<open>
  One detection of the extractor: its bounding box (type \<open>'b\<close>, only handed on to the
  canvas) and its descriptor.
\<close>

record ('b, 'e) detection =
  det_box :: 'b
  det_descriptor :: 'e

section \<open>VideoStream: the render step \<open>processFrame\<close>\<close>

text \<open>The calls made on the 2D context, in the order they are issued.\<close>

datatype 'b canvas_op =
    DrawImage
  | Save
  | FillStyle string
  | FillRect 'b
  | Restore
  | StrokeStyle string
  | LineWidth nat
  | StrokeRect 'b

record stats =
  fps :: nat
  facesDetected :: nat
  facesBlurred :: nat

text \<open>
  The part of the component that \<open>processFrame\<close> reads and writes:
  \<open>videoRef.current\<close> and \<open>canvasRef.current\<close> (attached or not), whether
  \<open>getContext('2d')\<close> yields a context, the \<open>modelsLoaded\<close> flag,
  \<open>lastDetectionsRef.current\<close>, the \<open>detectionStats\<close> state and the canvas (the log of
  the calls made on it).
\<close>

record ('b, 'e) render_state =
  videoRef :: bool
  canvasRef :: bool
  ctx2d :: bool
  modelsLoaded :: bool
  lastDetections :: "('b, 'e) detection list"
  detectionStats :: stats
  canvas :: "'b canvas_op list"

text \<open>
  The inner loop over \<open>faceDatabase\<close> (source lines 95-101): the first entry whose
  distance is below the literal 0.6 sets \<open>shouldBlur\<close> and breaks.
  \<open>euclideanDistance\<close> is the library's function, a parameter here; it returns a
  JavaScript number or throws.
\<close>

fun knownFace_loop ::
  "('e \<Rightarrow> 'e \<Rightarrow> js_error + js_number) \<Rightarrow> 'e \<Rightarrow> 'e face list \<Rightarrow> js_error + bool" where
  "knownFace_loop euclideanDistance faceDescriptor [] = Inr False"
| "knownFace_loop euclideanDistance faceDescriptor (knownFace # rest) =
     (case euclideanDistance faceDescriptor (face_descriptor knownFace) of
        Inl e \<Rightarrow> Inl e
      | Inr distance \<Rightarrow>
          if below_threshold distance then Inr True
          else knownFace_loop euclideanDistance faceDescriptor rest)"

text \<open>Source lines 92-102: \<open>shouldBlur\<close> for one detection.\<close>

definition shouldBlur ::
  "('e \<Rightarrow> 'e \<Rightarrow> js_error + js_number) \<Rightarrow> 'e face list \<Rightarrow> ('b, 'e) detection \<Rightarrow> js_error + bool" where
  "shouldBlur euclideanDistance faceDatabase d =
     (if length faceDatabase > 0
      then knownFace_loop euclideanDistance (det_descriptor d) faceDatabase
      else Inr False)"

text \<open>The calls drawn for one detection once its verdict is known (lines 103-112).\<close>

definition overlay :: "bool \<Rightarrow> 'b \<Rightarrow> 'b canvas_op list" where
  "overlay blur b =
     (if blur then [Save, FillStyle ''rgba(255,0,0,0.5)'', FillRect b, Restore] else [])
     @ [StrokeStyle (if blur then ''#ef4444'' else ''#22c55e''), LineWidth 2, StrokeRect b]"

text \<open>
  The loop over the cached detections (lines 90-113), carrying the canvas and
  \<open>blurredCount\<close>. An exception of the distance function leaves the loop at once: what
  was drawn stays drawn, and the caller learns the exception.
\<close>

fun detections_loop ::
  "('e \<Rightarrow> 'e \<Rightarrow> js_error + js_number) \<Rightarrow> 'e face list \<Rightarrow> ('b, 'e) detection list \<Rightarrow>
   'b canvas_op list \<Rightarrow> nat \<Rightarrow> js_error option \<times> 'b canvas_op list \<times> nat" where
  "detections_loop euclideanDistance faceDatabase [] cv blurredCount = (None, cv, blurredCount)"
| "detections_loop euclideanDistance faceDatabase (d # ds) cv blurredCount =
     (case shouldBlur euclideanDistance faceDatabase d of
        Inl e \<Rightarrow> (Some e, cv, blurredCount)
      | Inr blur \<Rightarrow>
          detections_loop euclideanDistance faceDatabase ds (cv @ overlay blur (det_box d))
            (if blur then blurredCount + 1 else blurredCount))"

text \<open>
  \<open>processFrame\<close> (lines 75-115). The two early returns change nothing. Otherwise the
  frame is drawn, then the overlays; \<open>setDetectionStats\<close> is the last statement, so it is
  reached only when no distance call threw. The result pairs the exception that ended the
  call, if any, with the state.
\<close>

definition processFrame ::
  "('e \<Rightarrow> 'e \<Rightarrow> js_error + js_number) \<Rightarrow> 'e face list \<Rightarrow> ('b, 'e) render_state \<Rightarrow>
   js_error option \<times> ('b, 'e) render_state" where
  "processFrame euclideanDistance faceDatabase st =
     (if \<not> videoRef st \<or> \<not> canvasRef st \<or> \<not> modelsLoaded st then (None, st)
      else if \<not> ctx2d st then (None, st)
      else
        (case detections_loop euclideanDistance faceDatabase (lastDetections st) (canvas st @ [DrawImage]) 0 of
           (Some e, cv, blurredCount) \<Rightarrow> (Some e, st\<lparr>canvas := cv\<rparr>)
         | (None, cv, blurredCount) \<Rightarrow>
             (None, st\<lparr>canvas := cv,
                detectionStats := (detectionStats st)
                  \<lparr>facesBlurred := blurredCount,
                   facesDetected := length (lastDetections st)\<rparr>\<rparr>)))"

text \<open>
  A gallery entry decides the inner loop when the distance call on it throws or returns
  a number below the threshold: the loop goes no further than the first such entry.
\<close>

definition decides :: "('e \<Rightarrow> 'e \<Rightarrow> js_error + js_number) \<Rightarrow> 'e \<Rightarrow> 'e face \<Rightarrow> bool" where
  "decides euclideanDistance faceDescriptor g =
     (case euclideanDistance faceDescriptor (face_descriptor g) of
        Inl e \<Rightarrow> True
      | Inr x \<Rightarrow> below_threshold x)"

text \<open>
  Whether the verdict for a detection is computed without an exception, and whether it
  is true.
\<close>

definition verdict_ok ::
  "('e \<Rightarrow> 'e \<Rightarrow> js_error + js_number) \<Rightarrow> 'e face list \<Rightarrow> ('b, 'e) detection \<Rightarrow> bool" where
  "verdict_ok euclideanDistance gallery d =
     (case shouldBlur euclideanDistance gallery d of Inl e \<Rightarrow> False | Inr b \<Rightarrow> True)"

definition matched ::
  "('e \<Rightarrow> 'e \<Rightarrow> js_error + js_number) \<Rightarrow> 'e face list \<Rightarrow> ('b, 'e) detection \<Rightarrow> bool" where
  "matched euclideanDistance gallery d =
     (shouldBlur euclideanDistance gallery d = Inr True)"

text \<open>
  A distance function in the manner of the library's: it refuses two descriptors of
  different lengths. Used only to run \<open>processFrame\<close> on a concrete input.
\<close>

definition lengthChecked :: "real list \<Rightarrow> real list \<Rightarrow> js_error + js_number" where
  "lengthChecked a b =
     (if length a \<noteq> length b then Inl LibraryError
      else Inr (Finite (sqrt (sum_list (map (\<lambda>(u, v). (u - v)\<^sup>2) (zip a b))))))"

definition theDetection :: "(nat, real list) detection" where
  "theDetection = \<lparr>det_box = 7, det_descriptor = [1, 0]\<rparr>"

definition oneDetection :: "(nat, real list) detection list" where
  "oneDetection = [theDetection]"

definition noContext :: "(nat, real list) render_state" where
  "noContext =
     \<lparr>videoRef = True, canvasRef = True, ctx2d = False, modelsLoaded = True,
      lastDetections = oneDetection,
      detectionStats = \<lparr>fps = 0, facesDetected = 0, facesBlurred = 0\<rparr>,
      canvas = []\<rparr>"

definition withContext :: "(nat, real list) render_state" where
  "withContext = noContext\<lparr>ctx2d := True\<rparr>"

definition emptyDescriptorEntry :: "real list face" where
  "emptyDescriptorEntry = \<lparr>props = [], face_descriptor = []\<rparr>"

definition sameDescriptorEntry :: "real list face" where
  "sameDescriptorEntry = \<lparr>props = [], face_descriptor = [1, 0]\<rparr>"

definition farDescriptorEntry :: "real list face" where
  "farDescriptorEntry = \<lparr>props = [], face_descriptor = [4, 4]\<rparr>"

section \<open>VideoStream: the detection loop\<close>

text \<open>
  The effect of source lines 55-72 starts one run of \<open>detectLoop\<close>, an async function.
  Between two awaits the function runs without interruption, so a run is described by the
  await it is suspended at: the promise of the extraction call, or the \<open>setTimeout\<close>
  promise (with its delay in milliseconds). A run ends by returning (the \<open>while\<close>
  condition found \<open>stopped\<close>) or by an exception, which rejects the promise of
  \<open>detectLoop\<close>; nobody awaits or catches that promise.
\<close>

datatype loop_pc =
    NotStarted
  | AwaitDetect
  | AwaitTimer nat
  | Returned
  | Rejected js_error

text \<open>
  The state of one run: the local \<open>stopped\<close>, what the video element reports
  (\<open>videoRef.current\<close> attached, \<open>paused\<close>, \<open>ended\<close>),
  \<open>lastDetectionsRef.current\<close> (the published snapshot), and two counters of the
  extraction calls: those started and not yet settled, and all those started.
\<close>

record ('b, 'e) loop_state =
  pc :: loop_pc
  stopped :: bool
  video :: bool
  paused :: bool
  ended :: bool
  published :: "('b, 'e) detection list"
  outstanding :: nat
  started :: nat

text \<open>What can happen while a run is suspended.\<close>

datatype ('b, 'e) event =
    DetectResolves "('b, 'e) detection list"
  | DetectRejects js_error
  | TimerFires
  | Cleanup
  | VideoReports bool bool

text \<open>
  From the \<open>while\<close> test to the next await (lines 59-67): leave when \<open>stopped\<close>;
  call the extractor when the video is attached, not paused and not ended; otherwise go
  straight to the 200 ms timeout.
\<close>

definition loop_top :: "('b, 'e) loop_state \<Rightarrow> ('b, 'e) loop_state" where
  "loop_top st =
     (if \<not> stopped st then
        (if video st \<and> \<not> paused st \<and> \<not> ended st
         then st\<lparr>pc := AwaitDetect, outstanding := outstanding st + 1, started := started st + 1\<rparr>
         else st\<lparr>pc := AwaitTimer 200\<rparr>)
      else st\<lparr>pc := Returned\<rparr>)"

text \<open>
  The effect body (lines 56-70): nothing without loaded models or without the video
  element; otherwise \<open>stopped = false\<close> and the first pass of \<open>detectLoop\<close>.
\<close>

definition detect_effect ::
  "bool \<Rightarrow> bool \<Rightarrow> bool \<Rightarrow> bool \<Rightarrow> ('b, 'e) detection list \<Rightarrow> ('b, 'e) loop_state" where
  "detect_effect models_loaded video_attached is_paused is_ended snapshot =
     (let st = \<lparr>pc = NotStarted, stopped = False, video = video_attached, paused = is_paused,
                 ended = is_ended, published = snapshot, outstanding = 0, started = 0\<rparr>
      in if \<not> models_loaded \<or> \<not> video_attached then st else loop_top st)"

text \<open>
  One event. The extraction promise settles only while the run awaits it: fulfilled, the
  result is assigned to \<open>lastDetectionsRef.current\<close> (line 65) and the 200 ms timeout
  follows (line 67); rejected, the exception leaves \<open>detectLoop\<close>. The timeout leads back
  to the \<open>while\<close> test. The cleanup of the effect (line 71) sets \<open>stopped\<close>. An event
  that the run is not waiting for changes nothing.
\<close>

fun step :: "('b, 'e) loop_state \<Rightarrow> ('b, 'e) event \<Rightarrow> ('b, 'e) loop_state" where
  "step st (DetectResolves detections) =
     (if pc st = AwaitDetect
      then st\<lparr>published := detections, outstanding := outstanding st - 1, pc := AwaitTimer 200\<rparr>
      else st)"
| "step st (DetectRejects e) =
     (if pc st = AwaitDetect
      then st\<lparr>outstanding := outstanding st - 1, pc := Rejected e\<rparr>
      else st)"
| "step st TimerFires =
     (case pc st of AwaitTimer ms \<Rightarrow> loop_top st | _ \<Rightarrow> st)"
| "step st Cleanup = st\<lparr>stopped := True\<rparr>"
| "step st (VideoReports p e) = st\<lparr>paused := p, ended := e\<rparr>"

definition run :: "('b, 'e) loop_state \<Rightarrow> ('b, 'e) event list \<Rightarrow> ('b, 'e) loop_state" where
  "run st evs = foldl step st evs"

text \<open>
  The component over time: the runs that the effect has started, newest first. A change
  of a dependency of the effect (\<open>detectionConfidence\<close>, line 72) makes React call the
  cleanup of the current run (line 71) and then the effect body again (lines 56-70). The
  cleanup only sets \<open>stopped\<close> of the old run: that run stays suspended at its await,
  and its extraction call is not cancelled. The new run sees the same video element and
  the same \<open>lastDetectionsRef\<close>.
\<close>

definition rerun_effect :: "bool \<Rightarrow> ('b, 'e) loop_state list \<Rightarrow> ('b, 'e) loop_state list" where
  "rerun_effect models_loaded runs =
     (case runs of
        [] \<Rightarrow> []
      | current # older \<Rightarrow>
          detect_effect models_loaded (video current) (paused current) (ended current)
            (published current)
          # step current Cleanup # older)"

text \<open>The extraction calls of all runs that are started and not yet settled.\<close>

definition all_outstanding :: "('b, 'e) loop_state list \<Rightarrow> nat" where
  "all_outstanding runs = sum_list (map outstanding runs)"

text \<open>The counter of unsettled calls is 1 exactly while the run awaits the extractor.\<close>

definition in_flight_inv :: "('b, 'e) loop_state \<Rightarrow> bool" where
  "in_flight_inv st = (outstanding st = (if pc st = AwaitDetect then 1 else 0))"

text \<open>A detection and a run on a playing video, for concrete runs.\<close>

definition someDetection :: "(nat, nat) detection" where
  "someDetection = \<lparr>det_box = 1, det_descriptor = 2\<rparr>"

definition playing :: "(nat, nat) loop_state" where
  "playing = detect_effect True True False False []"

section \<open>FaceManager: enrolment\<close>

text \<open>Decimal rendering of a number, as \<open>n + ''\<close> gives it for a natural number.\<close>

definition digit_char :: "nat \<Rightarrow> char" where
  "digit_char d = ''0123456789'' ! d"

fun show_nat :: "nat \<Rightarrow> string" where
  "show_nat n =
     (if n < 10 then [digit_char n] else show_nat (n div 10) @ [digit_char (n mod 10)])"

declare show_nat.simps [simp del]

text \<open>\<open>s.startsWith(p)\<close> and \<open>s.split('.')[0]\<close>.\<close>

definition startsWith :: "string \<Rightarrow> string \<Rightarrow> bool" where
  "startsWith s p = (take (length p) s = p)"

definition before_dot :: "string \<Rightarrow> string" where
  "before_dot s = takeWhile (\<lambda>c. c \<noteq> CHR ''.'') s"

text \<open>
  A file handed to \<open>handleFileSelect\<close>, with what the browser and the extractor will do
  with it: its MIME type and name, whether the image element fires \<open>onload\<close>, whether the
  off-screen canvas yields a 2D context, the outcome of \<open>detectSingleFace\<close> on it, and
  the data URL of the canvas.
\<close>

datatype 'e detect_outcome = DetectThrows | NoFace | Face 'e

record 'e image_file =
  file_type :: string
  file_name :: string
  loads :: bool
  has_ctx :: bool
  detects :: "'e detect_outcome"
  dataURL :: string

text \<open>A promise that is never resolved, or is resolved with a value.\<close>

datatype 'a settled = Pending | Resolved 'a

text \<open>
  \<open>processImage\<close> (lines 19-60). The promise is resolved only inside \<open>img.onload\<close>;
  no \<open>onerror\<close> handler exists, so for a file that does not load it stays pending.
  Inside: null without a context, null when no face is found or the extractor throws
  (caught at line 52), the descriptor and the data URL otherwise.
\<close>

definition processImage :: "'e image_file \<Rightarrow> ('e \<times> string) option settled" where
  "processImage f =
     (if \<not> loads f then Pending
      else if \<not> has_ctx f then Resolved None
      else (case detects f of
              Face d \<Rightarrow> Resolved (Some (d, dataURL f))
            | NoFace \<Rightarrow> Resolved None
            | DetectThrows \<Rightarrow> Resolved None))"

text \<open>The object pushed at lines 79-84.\<close>

definition newFace :: "string \<Rightarrow> string \<Rightarrow> 'e \<Rightarrow> string \<Rightarrow> 'e face" where
  "newFace i n d img =
     \<lparr>props = [(''id'', JStr i), (''name'', JStr n), (''image'', JStr img)],
      face_descriptor = d\<rparr>"

text \<open>
  The state of the component together with the gallery it is given and hands back through
  \<open>onFaceDatabaseChange\<close>.
\<close>

record 'e manager =
  faceDatabase :: "'e face list"
  error :: string
  processing :: bool

text \<open>
  The \<open>for\<close> loop of \<open>handleFileSelect\<close> (lines 68-86). \<open>now i\<close> is what
  \<open>Date.now()\<close> returns in iteration \<open>i\<close>. A file that is not an image is skipped; the
  loop awaits \<open>processImage\<close>, so a promise that stays pending suspends it for good.
\<close>

fun files_loop ::
  "(nat \<Rightarrow> nat) \<Rightarrow> 'e image_file list \<Rightarrow> nat \<Rightarrow> 'e face list \<Rightarrow> 'e face list settled" where
  "files_loop now [] i newFaces = Resolved newFaces"
| "files_loop now (f # files) i newFaces =
     (if \<not> startsWith (file_type f) ''image/'' then files_loop now files (i + 1) newFaces
      else (case processImage f of
              Pending \<Rightarrow> Pending
            | Resolved None \<Rightarrow> files_loop now files (i + 1) newFaces
            | Resolved (Some (d, img)) \<Rightarrow>
                files_loop now files (i + 1)
                  (newFaces @ [newFace (show_nat (now i + i)) (before_dot (file_name f)) d img])))"

text \<open>
  \<open>handleFileSelect\<close> (lines 62-95): either it runs to its end, or it stays suspended
  in the loop, with \<open>processing\<close> set and the gallery as it was.
\<close>

datatype 's completion = Completes 's | Hangs 's

definition handleFileSelect ::
  "(nat \<Rightarrow> nat) \<Rightarrow> 'e image_file list \<Rightarrow> 'e manager \<Rightarrow> 'e manager completion" where
  "handleFileSelect now files st =
     (let st1 = st\<lparr>processing := True, error := []\<rparr> in
      case files_loop now files 0 [] of
        Pending \<Rightarrow> Hangs st1
      | Resolved newFaces \<Rightarrow>
          Completes
            ((if length newFaces = 0
              then st1\<lparr>error := ''No faces detected in the uploaded images''\<rparr>
              else st1\<lparr>faceDatabase := faceDatabase st @ newFaces\<rparr>)
             \<lparr>processing := False\<rparr>))"

text \<open>
  \<open>removeFace\<close> (line 117); \<open>i\<close> is the value of the \<open>id\<close> property clicked on.
  Ids are compared as values, which is what \<open>!==\<close> does on strings, numbers, booleans,
  null and \<open>undefined\<close>; an imported id that is itself an array or an object would be
  compared by reference in the source.
\<close>

definition removeFace :: "json option \<Rightarrow> 'e manager \<Rightarrow> 'e manager" where
  "removeFace i st = st\<lparr>faceDatabase := filter (\<lambda>face. face_id face \<noteq> i) (faceDatabase st)\<rparr>"

section \<open>FaceManager: import\<close>

text \<open>
  The own enumerable properties that the spread \<open>{...face}\<close> copies: none for null, a
  boolean or a number; the indexed characters of a string; the indexed elements of an
  array; the properties of an object.
\<close>

fun ownProps :: "json \<Rightarrow> (string \<times> json) list" where
  "ownProps JNull = []"
| "ownProps (JBool b) = []"
| "ownProps (JNum x) = []"
| "ownProps (JStr s) = map (\<lambda>(i, c). (show_nat i, JStr [c])) (enumerate 0 s)"
| "ownProps (JArr xs) = map (\<lambda>(i, x). (show_nat i, x)) (enumerate 0 xs)"
| "ownProps (JObj kvs) = kvs"

text \<open>
  The property read \<open>face.descriptor\<close>: a \<open>TypeError\<close> on null; \<open>undefined\<close>
  (\<open>None\<close>) on a boolean, a number, a string, an array and an object without that key.
\<close>

fun getDescriptor :: "json \<Rightarrow> js_error + json option" where
  "getDescriptor JNull = Inl TypeError"
| "getDescriptor (JObj kvs) = Inr (map_of kvs ''descriptor'')"
| "getDescriptor v = Inr None"

text \<open>
  The callback of \<open>data.map\<close> (lines 141-144). \<open>newFloat32Array\<close> stands for the
  constructor \<open>new Float32Array(v)\<close> applied to the value read (or to \<open>undefined\<close>); the
  constructor can throw.
\<close>

definition fixFace :: "(json option \<Rightarrow> js_error + 'e) \<Rightarrow> json \<Rightarrow> js_error + 'e face" where
  "fixFace newFloat32Array face =
     (case getDescriptor face of
        Inl e \<Rightarrow> Inl e
      | Inr v \<Rightarrow>
          (case newFloat32Array v of
             Inl e \<Rightarrow> Inl e
           | Inr d \<Rightarrow>
               Inr \<lparr>props = filter (\<lambda>kv. fst kv \<noteq> ''descriptor'') (ownProps face),
                    face_descriptor = d\<rparr>))"

text \<open>\<open>data.map(...)\<close>: the first exception of the callback ends the call.\<close>

fun map_faces :: "(json option \<Rightarrow> js_error + 'e) \<Rightarrow> json list \<Rightarrow> js_error + 'e face list" where
  "map_faces newFloat32Array [] = Inr []"
| "map_faces newFloat32Array (face # rest) =
     (case fixFace newFloat32Array face of
        Inl e \<Rightarrow> Inl e
      | Inr f \<Rightarrow>
          (case map_faces newFloat32Array rest of
             Inl e \<Rightarrow> Inl e
           | Inr fs \<Rightarrow> Inr (f # fs)))"

text \<open>
  What \<open>importDatabase\<close> is given: no file chosen; a file whose read never fires
  \<open>onload\<close>; or a file whose text \<open>JSON.parse\<close> rejects or turns into a value.
\<close>

datatype import_input = NoFile | Unread | Parsed "js_error + json"

text \<open>
  \<open>importDatabase\<close> (lines 131-152). Only the \<open>catch\<close> reports; a parsed value that is
  not an array falls through the \<open>if\<close> with nothing done.
\<close>

definition importDatabase ::
  "(json option \<Rightarrow> js_error + 'e) \<Rightarrow> import_input \<Rightarrow> 'e manager \<Rightarrow> 'e manager" where
  "importDatabase newFloat32Array inp st =
     (case inp of
        NoFile \<Rightarrow> st
      | Unread \<Rightarrow> st
      | Parsed (Inl e) \<Rightarrow> st\<lparr>error := ''Invalid database file format''\<rparr>
      | Parsed (Inr data) \<Rightarrow>
          (case data of
             JArr xs \<Rightarrow>
               (case map_faces newFloat32Array xs of
                  Inl e \<Rightarrow> st\<lparr>error := ''Invalid database file format''\<rparr>
                | Inr fixed \<Rightarrow> st\<lparr>faceDatabase := fixed\<rparr>)
           | _ \<Rightarrow> st))"


section \<open>Batch enrolment, described file by file\<close>

text \<open>
  An image file is one whose type starts with \<open>image/\<close>. It succeeds when
  \<open>processImage\<close> resolves with a descriptor, fails when it resolves with null, and
  stalls when the promise is never resolved.
\<close>

definition is_image :: "'e image_file \<Rightarrow> bool" where
  "is_image f = startsWith (file_type f) ''image/''"

definition succeeds :: "'e image_file \<Rightarrow> bool" where
  "succeeds f =
     (is_image f \<and> (case processImage f of Resolved (Some r) \<Rightarrow> True | _ \<Rightarrow> False))"

definition fails :: "'e image_file \<Rightarrow> bool" where
  "fails f = (is_image f \<and> processImage f = Resolved None)"

definition stalls :: "'e image_file \<Rightarrow> bool" where
  "stalls f = (is_image f \<and> processImage f = Pending)"

text \<open>The entry that the file at index \<open>i\<close> contributes, if it succeeds.\<close>

definition enrolled :: "(nat \<Rightarrow> nat) \<Rightarrow> nat \<times> 'e image_file \<Rightarrow> 'e face option" where
  "enrolled now p =
     (case p of (i, f) \<Rightarrow>
        if is_image f then
          (case processImage f of
             Resolved (Some (d, img)) \<Rightarrow>
               Some (newFace (show_nat (now i + i)) (before_dot (file_name f)) d img)
           | _ \<Rightarrow> None)
        else None)"

text \<open>The batch of the specification's example: three images, the second without a face.\<close>

definition threeImages :: "nat image_file list" where
  "threeImages =
     [\<lparr>file_type = ''image/png'', file_name = ''anna.png'', loads = True, has_ctx = True,
       detects = Face 11, dataURL = ''data:a''\<rparr>,
      \<lparr>file_type = ''image/jpeg'', file_name = ''wall.jpg'', loads = True, has_ctx = True,
       detects = NoFace, dataURL = ''data:b''\<rparr>,
      \<lparr>file_type = ''image/png'', file_name = ''carl.v2.png'', loads = True, has_ctx = True,
       detects = Face 33, dataURL = ''data:c''\<rparr>]"

definition emptyManager :: "nat manager" where
  "emptyManager = \<lparr>faceDatabase = [], error = [], processing = False\<rparr>"


section \<open>Import, described element by element\<close>

text \<open>
  An element is accepted when reading its \<open>descriptor\<close> does not throw (it is not
  null) and the constructor does not throw on the value read.
\<close>

definition accepted :: "(json option \<Rightarrow> js_error + 'e) \<Rightarrow> json \<Rightarrow> bool" where
  "accepted newFloat32Array face =
     (case getDescriptor face of
        Inl e \<Rightarrow> False
      | Inr v \<Rightarrow> (case newFloat32Array v of Inl e \<Rightarrow> False | Inr d \<Rightarrow> True))"

text \<open>
  The entry \<open>f\<close> is the element \<open>face\<close> copied: its descriptor is what the constructor
  makes of \<open>face.descriptor\<close>, whatever its length, and every other property of
  \<open>face\<close> is a property of \<open>f\<close>, unchanged; so \<open>id\<close>, \<open>name\<close> and \<open>image\<close> are
  those of \<open>face\<close>, present or not, of any type.
\<close>

definition copied :: "(json option \<Rightarrow> js_error + 'e) \<Rightarrow> json \<Rightarrow> 'e face \<Rightarrow> bool" where
  "copied newFloat32Array face f =
     ((case getDescriptor face of
         Inl e \<Rightarrow> False
       | Inr v \<Rightarrow> newFloat32Array v = Inr (face_descriptor f))
      \<and> props f = filter (\<lambda>kv. fst kv \<noteq> ''descriptor'') (ownProps face)
      \<and> face_id f = map_of (ownProps face) ''id''
      \<and> face_name f = map_of (ownProps face) ''name''
      \<and> face_image f = map_of (ownProps face) ''image'')"

text \<open>
  A stand-in for the constructor in concrete runs. It agrees with \<open>new Float32Array\<close>
  on \<open>undefined\<close> (the empty array) and on an array of numbers (its elements, with the
  rounding to single precision left out); it is not meant as a model elsewhere.
\<close>

definition numbersOnly :: "json option \<Rightarrow> js_error + real list" where
  "numbersOnly v =
     (case v of
        Some (JArr xs) \<Rightarrow> Inr (map (\<lambda>x. case x of JNum r \<Rightarrow> r | _ \<Rightarrow> 0) xs)
      | _ \<Rightarrow> Inr [])"

definition annaOnly :: "real list manager" where
  "annaOnly =
     \<lparr>faceDatabase = [newFace ''1000'' ''anna'' [1, 0] ''data:a''], error = [],
      processing = False\<rparr>"

definition mixedArray :: "json list" where
  "mixedArray =
     [JObj [(''id'', JNum 7), (''descriptor'', JArr [JNum 1, JNum 2]), (''name'', JNull)],
      JObj [(''note'', JStr ''no descriptor'')],
      JBool True]"


section \<open>Reading a decimal rendering back\<close>

definition digit_val :: "char \<Rightarrow> nat" where
  "digit_val c = length (takeWhile (\<lambda>d. d \<noteq> c) ''0123456789'')"

definition read_nat :: "string \<Rightarrow> nat" where
  "read_nat s = foldl (\<lambda>a c. 10 * a + digit_val c) 0 s"

text \<open>The state a call of \<open>handleFileSelect\<close> leaves behind.\<close>

fun state_of :: "'s completion \<Rightarrow> 's" where
  "state_of (Completes s) = s"
| "state_of (Hangs s) = s"

text \<open>
  Concrete inputs: one image with a face; an array whose two elements carry the same
  \<open>id\<close>; a gallery without entries.
\<close>

definition portrait :: "real list image_file" where
  "portrait =
     \<lparr>file_type = ''image/png'', file_name = ''bob.png'', loads = True, has_ctx = True,
      detects = Face [0, 1], dataURL = ''data:b''\<rparr>"

text \<open>An image file that the browser cannot decode: \<open>onload\<close> never fires.\<close>

definition unloadable :: "real list image_file" where
  "unloadable =
     \<lparr>file_type = ''image/png'', file_name = ''broken.png'', loads = False, has_ctx = True,
      detects = NoFace, dataURL = []\<rparr>"

definition twins :: "json list" where
  "twins = [JObj [(''id'', JStr ''7''), (''name'', JStr ''a'')],
            JObj [(''id'', JStr ''7''), (''name'', JStr ''b'')]]"

definition noFaces :: "real list manager" where
  "noFaces = \<lparr>faceDatabase = [], error = [], processing = False\<rparr>"


section \<open>VideoStream: starting and stopping\<close>

text \<open>
  What \<open>startStream\<close> and \<open>stopStream\<close> read and write: the \<open>isPlaying\<close> and
  \<open>error\<close> states, the \<open>src\<close> of the video element, whether the element has a media
  stream as \<open>srcObject\<close>, and whether \<open>streamRef.current\<close> holds one.
\<close>

record session =
  isPlaying :: bool
  stream_error :: string
  video_src :: string
  srcObject :: bool
  streamRef :: bool

text \<open>An awaited call of the browser: it fulfils, or rejects with an error message.\<close>

datatype outcome = Fulfils | RejectsWith string

text \<open>
  \<open>startStream\<close> (lines 140-173). The arguments are the \<open>streamUrl\<close> property,
  whether \<open>videoRef.current\<close> is attached, and the outcomes of \<open>getUserMedia\<close> and of
  \<open>play()\<close>. The function does not read \<open>modelsLoaded\<close>.
\<close>

definition startStream :: "string \<Rightarrow> bool \<Rightarrow> outcome \<Rightarrow> outcome \<Rightarrow> session \<Rightarrow> session" where
  "startStream streamUrl video_attached getUserMedia play st =
     (if streamUrl = [] then st\<lparr>stream_error := ''Please enter a stream URL''\<rparr>
      else
        (let st1 = st\<lparr>stream_error := []\<rparr> in
         if startsWith streamUrl ''http'' then
           (if video_attached then
              (case play of
                 RejectsWith m \<Rightarrow>
                   st1\<lparr>video_src := streamUrl,
                       stream_error := ''Failed to start stream: '' @ m\<rparr>
               | Fulfils \<Rightarrow> st1\<lparr>video_src := streamUrl, isPlaying := True\<rparr>)
            else st1)
         else
           (case getUserMedia of
              RejectsWith m \<Rightarrow> st1\<lparr>stream_error := ''Failed to start stream: '' @ m\<rparr>
            | Fulfils \<Rightarrow>
                if video_attached then
                  (case play of
                     RejectsWith m \<Rightarrow>
                       st1\<lparr>srcObject := True,
                           stream_error := ''Failed to start stream: '' @ m\<rparr>
                   | Fulfils \<Rightarrow> st1\<lparr>srcObject := True, streamRef := True, isPlaying := True\<rparr>)
                else st1)))"

text \<open>\<open>stopStream\<close> (lines 175-187).\<close>

definition stopStream :: "bool \<Rightarrow> session \<Rightarrow> session" where
  "stopStream video_attached st =
     st\<lparr>video_src := (if video_attached then [] else video_src st),
        streamRef := False,
        isPlaying := False\<rparr>"

text \<open>
  The Start/Stop button (lines 227-234): \<open>disabled={!modelsLoaded}\<close>, so without loaded
  models a click reaches no handler; otherwise the handler is \<open>stopStream\<close> while
  playing and \<open>startStream\<close> while not.
\<close>

definition startStopButton ::
  "bool \<Rightarrow> string \<Rightarrow> bool \<Rightarrow> outcome \<Rightarrow> outcome \<Rightarrow> session \<Rightarrow> session" where
  "startStopButton models_loaded streamUrl video_attached getUserMedia play st =
     (if \<not> models_loaded then st
      else if isPlaying st then stopStream video_attached st
      else startStream streamUrl video_attached getUserMedia play st)"

text \<open>The auto-start effect (lines 201-206).\<close>

definition autoStartEffect ::
  "bool \<Rightarrow> bool \<Rightarrow> string \<Rightarrow> bool \<Rightarrow> outcome \<Rightarrow> outcome \<Rightarrow> session \<Rightarrow> session" where
  "autoStartEffect autoStart models_loaded streamUrl video_attached getUserMedia play st =
     (if autoStart \<and> \<not> isPlaying st \<and> models_loaded
      then startStream streamUrl video_attached getUserMedia play st
      else st)"

text \<open>
  The animation effect (lines 118-138): whether the render loop is started, which is
  also the value handed to \<open>onProcessingChange\<close>.
\<close>

definition animationEffect :: "bool \<Rightarrow> session \<Rightarrow> bool" where
  "animationEffect models_loaded st = (isPlaying st \<and> models_loaded)"

definition idle :: session where
  "idle =
     \<lparr>isPlaying = False, stream_error = [], video_src = [], srcObject = False,
      streamRef = False\<rparr>"


section \<open>The matcher\<close>

lemma knownFace_loop_find:
  "knownFace_loop f fd gallery =
     (case List.find (decides f fd) gallery of
        None \<Rightarrow> Inr False
      | Some g \<Rightarrow> (case f fd (face_descriptor g) of Inl e \<Rightarrow> Inl e | Inr x \<Rightarrow> Inr True))"
  by (induction gallery) (auto simp: decides_def split: sum.splits)

lemma knownFace_loop_finite:
  "\<forall>g \<in> set gallery. f fd (face_descriptor g) = Inr (Finite (dt g)) \<Longrightarrow>
   knownFace_loop f fd gallery = Inr (list_ex (\<lambda>g. dt g < double_0_6) gallery)"
  by (induction gallery) simp_all

lemma Min_less_threshold:
  assumes "faces \<noteq> []"
  shows "(Min ((\<lambda>g. (f g :: real)) ` set faces) < t) = list_ex (\<lambda>g. f g < t) faces"
proof -
  have "finite (f ` set faces)" "f ` set faces \<noteq> {}"
    using assms by auto
  then have "(Min (f ` set faces) < t) = (\<exists>a \<in> f ` set faces. a < t)"
    by (rule Min_less_iff)
  then show ?thesis
    by (auto simp: list_ex_iff)
qed

text \<open>
  C1, as stated, fails. A gallery entry whose descriptor has another length than the
  detection's makes the distance call throw: the gallery is not empty, yet there is no
  verdict, and whether there is one depends on the order of the gallery (a matching entry
  before the throwing one gives true, after it the exception). And the loop compares with
  the double-precision value of the literal 0.6, which lies below 0.6: at exactly that
  distance the least distance is below 0.6 and the verdict is false.
\<close>

theorem matcher_verdict_counterexample:
  "shouldBlur lengthChecked [emptyDescriptorEntry] theDetection = Inl LibraryError
   \<and> shouldBlur lengthChecked [sameDescriptorEntry, emptyDescriptorEntry] theDetection
       = Inr True
   \<and> shouldBlur lengthChecked [emptyDescriptorEntry, sameDescriptorEntry] theDetection
       = Inl LibraryError
   \<and> shouldBlur (\<lambda>a b. Inr (Finite double_0_6)) [sameDescriptorEntry] theDetection
       = Inr False
   \<and> double_0_6 < 0.6"
  by (simp add: shouldBlur_def lengthChecked_def emptyDescriptorEntry_def
      sameDescriptorEntry_def theDetection_def double_0_6_def)

text \<open>
  C1, amended. For every detection \<open>d\<close> and every gallery, the verdict is decided by the
  first gallery entry, in gallery order, at which the distance call throws or returns a
  number below the threshold: with no such entry the verdict is false; when that entry's
  distance is below the threshold the verdict is true; when the call throws there, there
  is no verdict and the exception leaves the matcher. The threshold is the
  double-precision value of the literal 0.6, and a distance that is not a number is
  never below it. When the distance from \<open>d\<close> to every gallery entry is a finite
  number, the verdict is: the gallery is non-empty and the least of these distances is
  below the threshold. On the empty gallery the verdict is false whatever the distance
  function is, also one that throws on every call: no distance is computed.
\<close>

theorem shouldBlur_first_decisive_entry:
  "shouldBlur euclideanDistance gallery d =
     (case List.find (decides euclideanDistance (det_descriptor d)) gallery of
        None \<Rightarrow> Inr False
      | Some g \<Rightarrow>
          (case euclideanDistance (det_descriptor d) (face_descriptor g) of
             Inl e \<Rightarrow> Inl e
           | Inr x \<Rightarrow> Inr True))
   \<and> ((\<forall>g \<in> set gallery.
          euclideanDistance (det_descriptor d) (face_descriptor g) = Inr (Finite (dt g)))
        \<longrightarrow> shouldBlur euclideanDistance gallery d =
              Inr (gallery \<noteq> [] \<and> Min (dt ` set gallery) < double_0_6))
   \<and> shouldBlur euclideanDistance [] d = Inr False
   \<and> \<not> below_threshold NaN
   \<and> below_threshold (Finite r) = (r < double_0_6)
   \<and> double_0_6 = 5404319552844595 / 2 ^ 53"
proof -
  have first: "shouldBlur euclideanDistance gallery d =
     (case List.find (decides euclideanDistance (det_descriptor d)) gallery of
        None \<Rightarrow> Inr False
      | Some g \<Rightarrow>
          (case euclideanDistance (det_descriptor d) (face_descriptor g) of
             Inl e \<Rightarrow> Inl e
           | Inr x \<Rightarrow> Inr True))"
    by (cases gallery) (simp_all add: shouldBlur_def knownFace_loop_find)
  have empty: "shouldBlur euclideanDistance [] d = Inr False"
    by (simp add: shouldBlur_def)
  have finite: "shouldBlur euclideanDistance gallery d =
      Inr (gallery \<noteq> [] \<and> Min (dt ` set gallery) < double_0_6)"
    if h: "\<forall>g \<in> set gallery.
      euclideanDistance (det_descriptor d) (face_descriptor g) = Inr (Finite (dt g))"
  proof (cases "gallery = []")
    case True
    then show ?thesis by (simp add: shouldBlur_def)
  next
    case False
    have m: "(Min (dt ` set gallery) < double_0_6) = list_ex (\<lambda>g. dt g < double_0_6) gallery"
      using False by (rule Min_less_threshold)
    have "shouldBlur euclideanDistance gallery d =
            knownFace_loop euclideanDistance (det_descriptor d) gallery"
      using False by (simp add: shouldBlur_def)
    also have "\<dots> = Inr (list_ex (\<lambda>g. dt g < double_0_6) gallery)"
      using h by (rule knownFace_loop_finite)
    finally show ?thesis
      using False m by simp
  qed
  have num: "\<not> below_threshold NaN" "below_threshold (Finite r) = (r < double_0_6)"
    "double_0_6 = 5404319552844595 / 2 ^ 53"
    by (simp_all add: double_0_6_def)
  from first empty finite num show ?thesis
    by blast
qed

theorem shouldBlur_first_decisive_entry_witness:
  "shouldBlur lengthChecked [farDescriptorEntry, sameDescriptorEntry] theDetection =
     Inr ([farDescriptorEntry, sameDescriptorEntry] \<noteq> []
          \<and> Min ((\<lambda>g. sqrt (sum_list (map (\<lambda>(u, v). (u - v)\<^sup>2)
                   (zip [1, 0] (face_descriptor g)))))
                 ` set [farDescriptorEntry, sameDescriptorEntry]) < double_0_6)
   \<and> shouldBlur lengthChecked [farDescriptorEntry, sameDescriptorEntry] theDetection = Inr True"
proof -
  let ?dt = "\<lambda>g :: real list face.
    sqrt (sum_list (map (\<lambda>(u, v). (u - v)\<^sup>2) (zip [1, 0] (face_descriptor g))))"
  have h: "\<forall>g \<in> set [farDescriptorEntry, sameDescriptorEntry].
      lengthChecked (det_descriptor theDetection) (face_descriptor g) = Inr (Finite (?dt g))"
    by (simp add: lengthChecked_def theDetection_def farDescriptorEntry_def
        sameDescriptorEntry_def)
  have v: "shouldBlur lengthChecked [farDescriptorEntry, sameDescriptorEntry] theDetection
      = Inr True"
    by (simp add: shouldBlur_def lengthChecked_def theDetection_def farDescriptorEntry_def
        sameDescriptorEntry_def double_0_6_def real_less_rsqrt)
  show ?thesis
    using shouldBlur_first_decisive_entry
      [of lengthChecked "[farDescriptorEntry, sameDescriptorEntry]" theDetection ?dt]
      h v
    by simp
qed

section \<open>The statistics published by \<open>processFrame\<close>\<close>

lemma detections_loop_no_throw:
  "list_all (verdict_ok f db) ds \<Longrightarrow>
   detections_loop f db ds cv n =
     (None,
      cv @ concat (map (\<lambda>d. overlay (matched f db d) (det_box d)) ds),
      n + length (filter (matched f db) ds))"
proof (induction ds arbitrary: cv n)
  case Nil
  then show ?case by simp
next
  case (Cons d ds)
  from Cons.prems obtain b where b: "shouldBlur f db d = Inr b"
    by (auto simp: verdict_ok_def split: sum.splits)
  from Cons.prems have rest: "list_all (verdict_ok f db) ds"
    by simp
  show ?case
    using b Cons.IH [OF rest] by (cases b) (simp_all add: matched_def)
qed

lemma detections_loop_throw:
  "\<not> list_all (verdict_ok f db) ds \<Longrightarrow>
   \<exists>e d. detections_loop f db ds cv n =
     (Some e,
      cv @ concat (map (\<lambda>d. overlay (matched f db d) (det_box d))
             (takeWhile (verdict_ok f db) ds)),
      n + length (filter (matched f db) (takeWhile (verdict_ok f db) ds)))
     \<and> List.find (\<lambda>d. \<not> verdict_ok f db d) ds = Some d
     \<and> shouldBlur f db d = Inl e"
proof (induction ds arbitrary: cv n)
  case Nil
  then show ?case by simp
next
  case (Cons d ds)
  show ?case
  proof (cases "shouldBlur f db d")
    case (Inl e)
    then show ?thesis
      by (simp add: verdict_ok_def)
  next
    case (Inr b)
    then have ok: "verdict_ok f db d"
      by (simp add: verdict_ok_def)
    with Cons.prems have "\<not> list_all (verdict_ok f db) ds"
      by simp
    from Cons.IH [OF this, of "cv @ overlay b (det_box d)" "if b then n + 1 else n"]
    obtain e d' where "detections_loop f db ds (cv @ overlay b (det_box d))
        (if b then n + 1 else n) =
      (Some e,
       (cv @ overlay b (det_box d))
         @ concat (map (\<lambda>d. overlay (matched f db d) (det_box d))
             (takeWhile (verdict_ok f db) ds)),
       (if b then n + 1 else n)
         + length (filter (matched f db) (takeWhile (verdict_ok f db) ds)))"
      and "List.find (\<lambda>d. \<not> verdict_ok f db d) ds = Some d'"
      and "shouldBlur f db d' = Inl e"
      by blast
    moreover have "matched f db d = b"
      using Inr by (simp add: matched_def)
    ultimately show ?thesis
      using Inr ok by (cases b) simp_all
  qed
qed

text \<open>
  C7, as stated, fails. With one cached detection and statistics still at their initial
  value, an invocation that returns at the guard on the 2D context publishes nothing, and
  so does an invocation in which the distance function throws (a gallery entry whose
  descriptor has another length than the detection's): \<open>facesDetected\<close> stays 0 while
  the snapshot holds one detection.
\<close>

theorem processFrame_stats_counterexample:
  "facesDetected (detectionStats (snd (processFrame lengthChecked [] noContext)))
     \<noteq> length (lastDetections (snd (processFrame lengthChecked [] noContext)))
   \<and> facesDetected
       (detectionStats (snd (processFrame lengthChecked [emptyDescriptorEntry] withContext)))
     \<noteq> length
         (lastDetections (snd (processFrame lengthChecked [emptyDescriptorEntry] withContext)))"
  by (simp add: processFrame_def noContext_def withContext_def oneDetection_def
      theDetection_def emptyDescriptorEntry_def shouldBlur_def lengthChecked_def)

text \<open>
  C7, amended. An invocation of \<open>processFrame\<close> does one of three things. When a guard
  fails (video or canvas not attached, models not loaded, or no 2D context) it returns
  with nothing drawn and nothing published: the state is as before. When the guards pass
  and the verdict of some detection throws, the invocation ends with the exception of the
  first such detection after drawing the frame and the overlays of the detections before the first throwing
  one, and publishes nothing: the statistics and the snapshot are as before. When the
  guards pass and no verdict throws, it publishes \<open>facesDetected\<close> = the length of the
  snapshot and \<open>facesBlurred\<close> = the number of detections whose verdict is true, leaves
  the snapshot and the frame rate as they were, and draws the frame followed by the
  overlay of each detection; an empty snapshot gives 0 and 0 and no overlay (only the
  frame is drawn).
\<close>

theorem processFrame_stats:
  "(\<not> (videoRef st \<and> canvasRef st \<and> modelsLoaded st \<and> ctx2d st)
      \<longrightarrow> processFrame f db st = (None, st))
   \<and> (videoRef st \<and> canvasRef st \<and> modelsLoaded st \<and> ctx2d st
       \<and> \<not> list_all (verdict_ok f db) (lastDetections st)
      \<longrightarrow> (\<exists>e d. fst (processFrame f db st) = Some e
               \<and> List.find (\<lambda>d. \<not> verdict_ok f db d) (lastDetections st) = Some d
               \<and> shouldBlur f db d = Inl e)
          \<and> snd (processFrame f db st) =
              st\<lparr>canvas := canvas st @ [DrawImage]
                    @ concat (map (\<lambda>d. overlay (matched f db d) (det_box d))
                        (takeWhile (verdict_ok f db) (lastDetections st)))\<rparr>
          \<and> detectionStats (snd (processFrame f db st)) = detectionStats st
          \<and> lastDetections (snd (processFrame f db st)) = lastDetections st)
   \<and> (videoRef st \<and> canvasRef st \<and> modelsLoaded st \<and> ctx2d st
       \<and> list_all (verdict_ok f db) (lastDetections st)
      \<longrightarrow> processFrame f db st =
            (None,
             st\<lparr>canvas := canvas st @ [DrawImage]
                   @ concat (map (\<lambda>d. overlay (matched f db d) (det_box d))
                       (lastDetections st)),
                detectionStats := (detectionStats st)
                  \<lparr>facesBlurred := length (filter (matched f db) (lastDetections st)),
                   facesDetected := length (lastDetections st)\<rparr>\<rparr>)
          \<and> (lastDetections st = [] \<longrightarrow>
               facesDetected (detectionStats (snd (processFrame f db st))) = 0
               \<and> facesBlurred (detectionStats (snd (processFrame f db st))) = 0
               \<and> canvas (snd (processFrame f db st)) = canvas st @ [DrawImage]))"
proof (intro conjI impI)
  assume "\<not> (videoRef st \<and> canvasRef st \<and> modelsLoaded st \<and> ctx2d st)"
  then show "processFrame f db st = (None, st)"
    by (auto simp: processFrame_def)
next
  assume h: "videoRef st \<and> canvasRef st \<and> modelsLoaded st \<and> ctx2d st
       \<and> \<not> list_all (verdict_ok f db) (lastDetections st)"
  then obtain e d where run:
    "detections_loop f db (lastDetections st) (canvas st @ [DrawImage]) 0 =
      (Some e,
       (canvas st @ [DrawImage])
         @ concat (map (\<lambda>d. overlay (matched f db d) (det_box d))
             (takeWhile (verdict_ok f db) (lastDetections st))),
       0 + length (filter (matched f db) (takeWhile (verdict_ok f db) (lastDetections st))))"
    and first: "List.find (\<lambda>d. \<not> verdict_ok f db d) (lastDetections st) = Some d"
    and thrown: "shouldBlur f db d = Inl e"
    using detections_loop_throw [of f db "lastDetections st" "canvas st @ [DrawImage]" 0]
    by blast
  have pf: "processFrame f db st =
      (Some e,
       st\<lparr>canvas := canvas st @ [DrawImage]
             @ concat (map (\<lambda>d. overlay (matched f db d) (det_box d))
                 (takeWhile (verdict_ok f db) (lastDetections st)))\<rparr>)"
    using h by (simp add: processFrame_def run)
  show "\<exists>e d. fst (processFrame f db st) = Some e
      \<and> List.find (\<lambda>d. \<not> verdict_ok f db d) (lastDetections st) = Some d
      \<and> shouldBlur f db d = Inl e"
    unfolding pf using first thrown by simp
  show "snd (processFrame f db st) =
      st\<lparr>canvas := canvas st @ [DrawImage]
            @ concat (map (\<lambda>d. overlay (matched f db d) (det_box d))
                (takeWhile (verdict_ok f db) (lastDetections st)))\<rparr>"
    unfolding pf by simp
  show "detectionStats (snd (processFrame f db st)) = detectionStats st"
    unfolding pf by simp
  show "lastDetections (snd (processFrame f db st)) = lastDetections st"
    unfolding pf by simp
next
  assume h: "videoRef st \<and> canvasRef st \<and> modelsLoaded st \<and> ctx2d st
       \<and> list_all (verdict_ok f db) (lastDetections st)"
  then have run: "detections_loop f db (lastDetections st) (canvas st @ [DrawImage]) 0 =
      (None,
       (canvas st @ [DrawImage])
         @ concat (map (\<lambda>d. overlay (matched f db d) (det_box d)) (lastDetections st)),
       0 + length (filter (matched f db) (lastDetections st)))"
    using detections_loop_no_throw by blast
  show first: "processFrame f db st =
     (None,
      st\<lparr>canvas := canvas st @ [DrawImage]
            @ concat (map (\<lambda>d. overlay (matched f db d) (det_box d)) (lastDetections st)),
         detectionStats := (detectionStats st)
           \<lparr>facesBlurred := length (filter (matched f db) (lastDetections st)),
            facesDetected := length (lastDetections st)\<rparr>\<rparr>)"
    using h by (simp add: processFrame_def run)
  assume e: "lastDetections st = []"
  show "facesDetected (detectionStats (snd (processFrame f db st))) = 0"
    unfolding first using e by simp
  show "facesBlurred (detectionStats (snd (processFrame f db st))) = 0"
    unfolding first using e by simp
  show "canvas (snd (processFrame f db st)) = canvas st @ [DrawImage]"
    unfolding first using e by simp
qed

theorem processFrame_stats_witness:
  "processFrame lengthChecked [sameDescriptorEntry] noContext = (None, noContext)
   \<and> fst (processFrame lengthChecked [emptyDescriptorEntry] withContext) = Some LibraryError
   \<and> snd (processFrame lengthChecked [emptyDescriptorEntry] withContext)
       = withContext\<lparr>canvas := [DrawImage]\<rparr>
   \<and> detectionStats (snd (processFrame lengthChecked [emptyDescriptorEntry] withContext))
       = \<lparr>fps = 0, facesDetected = 0, facesBlurred = 0\<rparr>
   \<and> processFrame lengthChecked [sameDescriptorEntry] withContext =
       (None,
        withContext
          \<lparr>canvas := [DrawImage, Save, FillStyle ''rgba(255,0,0,0.5)'', FillRect 7, Restore,
              StrokeStyle ''#ef4444'', LineWidth 2, StrokeRect 7],
           detectionStats := \<lparr>fps = 0, facesDetected = 1, facesBlurred = 1\<rparr>\<rparr>)
   \<and> processFrame lengthChecked [sameDescriptorEntry] (withContext\<lparr>lastDetections := []\<rparr>) =
       (None,
        withContext
          \<lparr>lastDetections := [], canvas := [DrawImage],
           detectionStats := \<lparr>fps = 0, facesDetected = 0, facesBlurred = 0\<rparr>\<rparr>)"
proof -
  have v: "shouldBlur lengthChecked [sameDescriptorEntry] theDetection = Inr True"
    by (simp add: shouldBlur_def lengthChecked_def sameDescriptorEntry_def theDetection_def
        double_0_6_def)
  have t: "shouldBlur lengthChecked [emptyDescriptorEntry] theDetection = Inl LibraryError"
    by (simp add: shouldBlur_def lengthChecked_def emptyDescriptorEntry_def theDetection_def)
  have bx: "det_box theDetection = 7"
    by (simp add: theDetection_def)
  have g0: "\<not> (videoRef noContext \<and> canvasRef noContext \<and> modelsLoaded noContext
      \<and> ctx2d noContext)"
    by (simp add: noContext_def)
  have g: "videoRef withContext \<and> canvasRef withContext \<and> modelsLoaded withContext
      \<and> ctx2d withContext"
    by (simp add: withContext_def noContext_def)
  have a: "list_all (verdict_ok lengthChecked [sameDescriptorEntry]) (lastDetections withContext)"
    by (simp add: withContext_def noContext_def oneDetection_def verdict_ok_def v)
  have b: "\<not> list_all (verdict_ok lengthChecked [emptyDescriptorEntry])
      (lastDetections withContext)"
    by (simp add: withContext_def noContext_def oneDetection_def verdict_ok_def t)
  have c: "fst (processFrame lengthChecked [emptyDescriptorEntry] withContext)
      = Some LibraryError"
    by (simp add: processFrame_def withContext_def noContext_def oneDetection_def t)
  have p1: "processFrame lengthChecked [sameDescriptorEntry] noContext = (None, noContext)"
    using processFrame_stats [of noContext lengthChecked "[sameDescriptorEntry]"] g0
    by blast
  have p2: "snd (processFrame lengthChecked [emptyDescriptorEntry] withContext)
       = withContext\<lparr>canvas := [DrawImage]\<rparr>
    \<and> detectionStats (snd (processFrame lengthChecked [emptyDescriptorEntry] withContext))
       = \<lparr>fps = 0, facesDetected = 0, facesBlurred = 0\<rparr>"
    using processFrame_stats [of withContext lengthChecked "[emptyDescriptorEntry]"] g b
    by (simp add: withContext_def noContext_def oneDetection_def verdict_ok_def t)
  have p3: "processFrame lengthChecked [sameDescriptorEntry] withContext =
       (None,
        withContext
          \<lparr>canvas := [DrawImage, Save, FillStyle ''rgba(255,0,0,0.5)'', FillRect 7, Restore,
              StrokeStyle ''#ef4444'', LineWidth 2, StrokeRect 7],
           detectionStats := \<lparr>fps = 0, facesDetected = 1, facesBlurred = 1\<rparr>\<rparr>)"
    using processFrame_stats [of withContext lengthChecked "[sameDescriptorEntry]"] g a
    by (simp add: withContext_def noContext_def oneDetection_def matched_def v overlay_def bx)
  have p4: "processFrame lengthChecked [sameDescriptorEntry]
        (withContext\<lparr>lastDetections := []\<rparr>) =
       (None,
        withContext
          \<lparr>lastDetections := [], canvas := [DrawImage],
           detectionStats := \<lparr>fps = 0, facesDetected = 0, facesBlurred = 0\<rparr>\<rparr>)"
    using processFrame_stats
      [of "withContext\<lparr>lastDetections := []\<rparr>" lengthChecked "[sameDescriptorEntry]"]
    by (simp add: withContext_def noContext_def)
  from p1 c p2 p3 p4 show ?thesis
    by blast
qed

section \<open>One run of the detection loop\<close>

lemma run_Nil: "run st [] = st"
  by (simp add: run_def)

lemma run_Cons: "run st (ev # evs) = run (step st ev) evs"
  by (simp add: run_def)

lemma in_flight_inv_loop_top:
  "in_flight_inv st \<Longrightarrow> pc st \<noteq> AwaitDetect \<Longrightarrow> in_flight_inv (loop_top st)"
  by (simp add: in_flight_inv_def loop_top_def)

lemma in_flight_inv_step: "in_flight_inv st \<Longrightarrow> in_flight_inv (step st ev)"
proof (cases ev)
  case TimerFires
  assume "in_flight_inv st"
  then show ?thesis
    using TimerFires by (auto simp: in_flight_inv_loop_top split: loop_pc.splits)
qed (auto simp: in_flight_inv_def)

lemma in_flight_inv_effect: "in_flight_inv (detect_effect m v p e snap)"
  by (simp add: detect_effect_def Let_def in_flight_inv_def loop_top_def)

lemma in_flight_inv_run: "in_flight_inv st \<Longrightarrow> in_flight_inv (run st evs)"
  by (induction evs arbitrary: st) (simp_all add: run_Nil run_Cons in_flight_inv_step)

lemma timer_inv_step:
  "(case pc st of AwaitTimer ms \<Rightarrow> ms = 200 | _ \<Rightarrow> True) \<Longrightarrow>
   (case pc (step st ev) of AwaitTimer ms \<Rightarrow> ms = 200 | _ \<Rightarrow> True)"
  by (cases ev) (auto simp: loop_top_def split: loop_pc.splits)

lemma timer_inv_effect:
  "(case pc (detect_effect m v p e snap) of AwaitTimer ms \<Rightarrow> ms = 200 | _ \<Rightarrow> True)"
  by (simp add: detect_effect_def Let_def loop_top_def)

lemma timer_inv_run:
  "(case pc st of AwaitTimer ms \<Rightarrow> ms = 200 | _ \<Rightarrow> True) \<Longrightarrow>
   (case pc (run st evs) of AwaitTimer ms \<Rightarrow> ms = 200 | _ \<Rightarrow> True)"
proof (induction evs arbitrary: st)
  case Nil
  then show ?case by (simp add: run_Nil)
next
  case (Cons ev evs)
  from Cons.prems have "case pc (step st ev) of AwaitTimer ms \<Rightarrow> ms = 200 | _ \<Rightarrow> True"
    by (rule timer_inv_step)
  then show ?case
    unfolding run_Cons by (rule Cons.IH)
qed

lemma started_changes:
  assumes "started (step st ev) \<noteq> started st"
  shows "ev = TimerFires \<and> (\<exists>ms. pc st = AwaitTimer ms)"
  using assms by (cases ev) (auto split: if_splits loop_pc.splits)

text \<open>
  C4, as stated, fails. The first run awaits its extraction call on a playing video when
  \<open>detectionConfidence\<close> changes: the cleanup stops the old run without cancelling its
  call, the effect starts a new run, and the new run calls the extractor at once. Two
  extraction calls are outstanding together.
\<close>

theorem overlapping_extractions_counterexample:
  "all_outstanding [playing] = 1
   \<and> all_outstanding (rerun_effect True [playing]) = 2
   \<and> map pc (rerun_effect True [playing]) = [AwaitDetect, AwaitDetect]
   \<and> map stopped (rerun_effect True [playing]) = [False, True]"
  by (simp add: all_outstanding_def rerun_effect_def playing_def detect_effect_def Let_def
      loop_top_def)

text \<open>
  C4, amended. In every state that one run of the detection loop reaches, whatever the
  events and their order, at most one extraction call of that run is unsettled, and one
  is unsettled exactly while the run awaits it. When the awaited call completes the run
  goes to the 200 ms timeout, with no call unsettled; a further call of the run is
  started only by the firing of that timeout, at a moment when none is unsettled. This
  holds for the calls of one run only: when the effect is run again with loaded models
  while the run awaits its call and the video is attached, not paused and not ended, the
  old call stays unsettled and the new run starts its own, so that two extraction calls
  are outstanding.
\<close>

theorem at_most_one_extraction:
  assumes "st = run (detect_effect m v p e snap) evs"
  shows "outstanding st \<le> 1
    \<and> (outstanding st = 1) = (pc st = AwaitDetect)
    \<and> (pc st = AwaitDetect \<longrightarrow>
         pc (step st (DetectResolves ds)) = AwaitTimer 200
         \<and> outstanding (step st (DetectResolves ds)) = 0)
    \<and> (started (step st ev) \<noteq> started st \<longrightarrow>
         ev = TimerFires \<and> pc st = AwaitTimer 200 \<and> outstanding st = 0)
    \<and> (pc st = AwaitDetect \<and> video st \<and> \<not> paused st \<and> \<not> ended st \<longrightarrow>
         all_outstanding (rerun_effect True [st]) = 2)"
proof -
  have inv: "in_flight_inv st"
    unfolding assms by (rule in_flight_inv_run) (rule in_flight_inv_effect)
  have tm: "case pc st of AwaitTimer ms \<Rightarrow> ms = 200 | _ \<Rightarrow> True"
    unfolding assms by (rule timer_inv_run) (rule timer_inv_effect)
  have a: "outstanding st \<le> 1" and b: "(outstanding st = 1) = (pc st = AwaitDetect)"
    using inv by (simp_all add: in_flight_inv_def)
  have c: "pc st = AwaitDetect \<longrightarrow>
         pc (step st (DetectResolves ds)) = AwaitTimer 200
         \<and> outstanding (step st (DetectResolves ds)) = 0"
    using inv by (simp add: in_flight_inv_def)
  have d: "started (step st ev) \<noteq> started st \<longrightarrow>
         ev = TimerFires \<and> pc st = AwaitTimer 200 \<and> outstanding st = 0"
  proof
    assume ch: "started (step st ev) \<noteq> started st"
    then obtain ms where ev: "ev = TimerFires" and pc: "pc st = AwaitTimer ms"
      using started_changes by blast
    from tm pc have "ms = 200" by simp
    with ev pc inv show "ev = TimerFires \<and> pc st = AwaitTimer 200 \<and> outstanding st = 0"
      by (simp add: in_flight_inv_def)
  qed
  have r: "pc st = AwaitDetect \<and> video st \<and> \<not> paused st \<and> \<not> ended st \<longrightarrow>
         all_outstanding (rerun_effect True [st]) = 2"
    using inv
    by (simp add: in_flight_inv_def all_outstanding_def rerun_effect_def detect_effect_def
        Let_def loop_top_def)
  from a b c d r show ?thesis by blast
qed

theorem at_most_one_extraction_witness:
  "outstanding (run playing [DetectResolves [someDetection]]) \<le> 1
   \<and> pc (run playing [DetectResolves [someDetection]]) = AwaitTimer 200
   \<and> started (step (run playing [DetectResolves [someDetection]]) TimerFires) = 2
   \<and> started (run playing [DetectResolves [someDetection]]) = 1
   \<and> outstanding (run playing [DetectResolves [someDetection]]) = 0
   \<and> pc (run playing []) = AwaitDetect
   \<and> outstanding (run playing []) = 1
   \<and> pc (step (run playing []) (DetectResolves [someDetection])) = AwaitTimer 200
   \<and> all_outstanding (rerun_effect True [run playing []]) = 2"
proof -
  have s1: "started (step (run playing [DetectResolves [someDetection]]) TimerFires) = 2"
    and s0: "started (run playing [DetectResolves [someDetection]]) = 1"
    and p0: "pc (run playing []) = AwaitDetect"
    and v0: "video (run playing []) \<and> \<not> paused (run playing []) \<and> \<not> ended (run playing [])"
    by (simp_all add: playing_def detect_effect_def Let_def loop_top_def run_def)
  have ne: "started (step (run playing [DetectResolves [someDetection]]) TimerFires)
      \<noteq> started (run playing [DetectResolves [someDetection]])"
    using s1 s0 by simp
  show ?thesis
    using at_most_one_extraction
      [of "run playing [DetectResolves [someDetection]]" True True False False "[]"
        "[DetectResolves [someDetection]]" "[]" TimerFires]
      at_most_one_extraction
      [of "run playing []" True True False False "[]" "[]" "[someDetection]" TimerFires]
      ne s1 s0 p0 v0
    by (simp add: playing_def)
qed

section \<open>Stopping the detection loop\<close>

lemma stopped_step: "stopped st \<Longrightarrow> stopped (step st ev)"
  by (cases ev) (auto simp: loop_top_def split: loop_pc.splits)

lemma started_step_stopped: "stopped st \<Longrightarrow> started (step st ev) = started st"
  by (cases ev) (auto simp: loop_top_def split: loop_pc.splits)

lemma stopped_run: "stopped st \<Longrightarrow> stopped (run st evs) \<and> started (run st evs) = started st"
proof (induction evs arbitrary: st)
  case Nil
  then show ?case by (simp add: run_Nil)
next
  case (Cons ev evs)
  then show ?case
    by (simp add: run_Cons stopped_step started_step_stopped)
qed

text \<open>
  C2, as stated, fails. The cleanup runs while the first extraction is in flight; the
  extraction then completes, and its result becomes the published snapshot although the
  run has been told to stop. The same happens when the session is stopped by pausing the
  video (\<open>stopStream\<close>) while the extraction is in flight.
\<close>

theorem stop_in_flight_counterexample:
  "pc (run playing [Cleanup]) = AwaitDetect
   \<and> stopped (run playing [Cleanup])
   \<and> published (run playing [Cleanup]) = []
   \<and> published (run playing [Cleanup, DetectResolves [someDetection]]) = [someDetection]
   \<and> published (run playing [VideoReports True False, DetectResolves [someDetection]])
       = [someDetection]"
  by (simp add: playing_def detect_effect_def Let_def loop_top_def run_def)

text \<open>
  C2, amended. Once a run has been told to stop, it starts no further extraction call,
  whatever happens next: stopping takes effect at the next test of the loop, where the
  run returns. The result of an extraction in flight at that moment is still published
  when the extraction completes.
\<close>

theorem stop_blocks_next_poll:
  assumes "stopped st"
  shows "started (run st evs) = started st
    \<and> stopped (run st evs)
    \<and> (pc st = AwaitTimer ms \<longrightarrow> pc (step st TimerFires) = Returned)
    \<and> (pc st = AwaitDetect \<longrightarrow>
         published (step st (DetectResolves ds)) = ds
         \<and> pc (step (step st (DetectResolves ds)) TimerFires) = Returned)"
  using assms stopped_run [OF assms, of evs] by (simp add: loop_top_def)

theorem stop_blocks_next_poll_witness:
  "stopped (run playing [Cleanup])
   \<and> pc (run playing [Cleanup]) = AwaitDetect
   \<and> started (run (run playing [Cleanup]) [DetectResolves [someDetection], TimerFires, TimerFires])
       = started (run playing [Cleanup])
   \<and> published (step (run playing [Cleanup]) (DetectResolves [someDetection])) = [someDetection]
   \<and> pc (step (step (run playing [Cleanup]) (DetectResolves [someDetection])) TimerFires)
       = Returned"
proof -
  have st: "stopped (run playing [Cleanup])" and pc: "pc (run playing [Cleanup]) = AwaitDetect"
    by (simp_all add: playing_def detect_effect_def Let_def loop_top_def run_def)
  show ?thesis
    using stop_blocks_next_poll
      [OF st, of "[DetectResolves [someDetection], TimerFires, TimerFires]" 200 "[someDetection]"]
      st pc
    by simp
qed

section \<open>An extraction that fails\<close>

lemma rejected_step:
  "pc st = Rejected e \<Longrightarrow>
   pc (step st ev) = Rejected e \<and> started (step st ev) = started st
   \<and> published (step st ev) = published st"
  by (cases ev) auto

text \<open>
  C3. The first extraction of a run is rejected. The run ends there: the snapshot
  published before stays, but later timer events start nothing, and \<open>stopped\<close> was never
  set. The loop has terminated because of a single extraction failure.
\<close>

theorem extraction_failure_ends_loop:
  "pc (run playing [DetectRejects LibraryError, TimerFires, TimerFires])
     = Rejected LibraryError
   \<and> started (run playing [DetectRejects LibraryError, TimerFires, TimerFires]) = 1
   \<and> \<not> stopped (run playing [DetectRejects LibraryError, TimerFires, TimerFires])
   \<and> published (run playing [DetectRejects LibraryError, TimerFires, TimerFires])
       = published playing"
  by (simp add: playing_def detect_effect_def Let_def loop_top_def run_def)

section \<open>Batch enrolment\<close>

lemma files_loop_resolves:
  "list_all (\<lambda>f. \<not> stalls f) files \<Longrightarrow>
   files_loop now files i acc =
     Resolved (acc @ List.map_filter (enrolled now) (enumerate i files))"
proof (induction files arbitrary: i acc)
  case Nil
  then show ?case by simp
next
  case (Cons f files)
  from Cons.prems have rest: "list_all (\<lambda>f. \<not> stalls f) files" and nf: "\<not> stalls f"
    by simp_all
  note IH = Cons.IH [OF rest]
  show ?case
  proof (cases "is_image f")
    case False
    then show ?thesis
      using IH by (simp add: is_image_def enrolled_def)
  next
    case True
    with nf have np: "processImage f \<noteq> Pending"
      by (simp add: stalls_def)
    show ?thesis
    proof (cases "processImage f")
      case Pending
      with np show ?thesis by simp
    next
      case (Resolved r)
      then show ?thesis
        using True IH
        by (cases r) (auto simp: is_image_def enrolled_def)
    qed
  qed
qed

lemma enrolled_Some_iff: "(enrolled now (i, f) \<noteq> None) = succeeds f"
  by (auto simp: enrolled_def succeeds_def split: settled.splits option.splits)

lemma length_enrolled:
  "length (List.map_filter (enrolled now) (enumerate i files)) = length (filter succeeds files)"
proof (induction files arbitrary: i)
  case Nil
  then show ?case by simp
next
  case (Cons f files)
  show ?case
  proof (cases "succeeds f")
    case True
    then obtain y where "enrolled now (i, f) = Some y"
      using enrolled_Some_iff [of now i f] by auto
    then show ?thesis
      using True Cons.IH by simp
  next
    case False
    then have "enrolled now (i, f) = None"
      using enrolled_Some_iff [of now i f] by auto
    then show ?thesis
      using False Cons.IH by simp
  qed
qed

lemma partition_images:
  "list_all (\<lambda>f. \<not> stalls f) files \<Longrightarrow>
   length (filter succeeds files) + length (filter fails files) = length (filter is_image files)"
proof (induction files)
  case Nil
  then show ?case by simp
next
  case (Cons f files)
  then have "\<not> stalls f" by simp
  then have "is_image f \<Longrightarrow> succeeds f \<noteq> fails f"
    by (auto simp: stalls_def succeeds_def fails_def split: settled.splits option.splits)
  moreover have "\<not> is_image f \<Longrightarrow> \<not> succeeds f \<and> \<not> fails f"
    by (simp add: succeeds_def fails_def)
  ultimately show ?case
    using Cons by (cases "is_image f") auto
qed

text \<open>
  When every image file of the batch loads, \<open>handleFileSelect\<close> completes, and the
  image files fall into those that succeed and those that fail, each judged alone. The
  gallery is the old one followed by one new entry for each succeeding file, in order,
  and nothing for a failing one. The only report is
  \<open>No faces detected in the uploaded images\<close>, made exactly when no file succeeds.
\<close>

lemma batch_enrolment:
  assumes "list_all (\<lambda>f. \<not> stalls f) files"
  shows "handleFileSelect now files st =
      Completes
        (st\<lparr>faceDatabase :=
              faceDatabase st @ List.map_filter (enrolled now) (enumerate 0 files),
            error := (if filter succeeds files = [] then
                        ''No faces detected in the uploaded images'' else []),
            processing := False\<rparr>)
    \<and> length (List.map_filter (enrolled now) (enumerate 0 files))
        = length (filter succeeds files)
    \<and> length (filter succeeds files) + length (filter fails files)
        = length (filter is_image files)"
proof -
  let ?new = "List.map_filter (enrolled now) (enumerate 0 files)"
  have loop: "files_loop now files 0 [] = Resolved ?new"
    using files_loop_resolves [OF assms, of now 0 "[]"] by simp
  have len: "length ?new = length (filter succeeds files)"
    by (rule length_enrolled)
  then have empty: "(?new = []) = (filter succeeds files = [])"
    by (metis length_0_conv)
  have "handleFileSelect now files st =
      Completes
        (st\<lparr>faceDatabase := faceDatabase st @ ?new,
            error := (if filter succeeds files = [] then
                        ''No faces detected in the uploaded images'' else []),
            processing := False\<rparr>)"
    using empty by (simp add: handleFileSelect_def loop Let_def)
  with len partition_images [OF assms] show ?thesis
    by blast
qed

lemma batch_of_three:
  "handleFileSelect (\<lambda>i. 1000) threeImages emptyManager =
     Completes
       \<lparr>faceDatabase = [newFace ''1000'' ''anna'' 11 ''data:a'', newFace ''1002'' ''carl'' 33 ''data:c''],
        error = [], processing = False\<rparr>"
  by (simp add: handleFileSelect_def threeImages_def emptyManager_def startsWith_def
      processImage_def before_dot_def show_nat.simps digit_char_def)

text \<open>An image file that stalls suspends the loop, whatever the other files are.\<close>

lemma files_loop_stalls:
  "list_ex stalls files \<Longrightarrow> files_loop now files i acc = Pending"
proof (induction files arbitrary: i acc)
  case Nil
  then show ?case by simp
next
  case (Cons f files)
  show ?case
  proof (cases "stalls f")
    case True
    then show ?thesis
      by (simp add: stalls_def is_image_def)
  next
    case False
    with Cons.prems have "list_ex stalls files"
      by simp
    then have "\<And>j acc'. files_loop now files j acc' = Pending"
      by (rule Cons.IH)
    then show ?thesis
      by (simp split: settled.splits option.splits)
  qed
qed

lemma batch_with_stalling_image:
  "list_ex stalls files \<Longrightarrow>
   handleFileSelect now files st = Hangs (st\<lparr>processing := True, error := []\<rparr>)"
  by (simp add: handleFileSelect_def files_loop_stalls)

text \<open>
  C6. A batch of three image files: the first and the third show a face, the second is
  an image file that does not decode, so that no face is detected in it. The batch never
  completes: the third image is never tried, the entry of the first is never written to
  the gallery, nothing is reported, and \<open>processing\<close> stays set. The failing image has
  aborted the batch.
\<close>

theorem batch_hangs_on_unloadable_image:
  "handleFileSelect (\<lambda>i. 1000) [portrait, unloadable, portrait] noFaces =
     Hangs (noFaces\<lparr>processing := True\<rparr>)
   \<and> faceDatabase (state_of
        (handleFileSelect (\<lambda>i. 1000) [portrait, unloadable, portrait] noFaces)) = []
   \<and> error (state_of
        (handleFileSelect (\<lambda>i. 1000) [portrait, unloadable, portrait] noFaces)) = []
   \<and> is_image unloadable
   \<and> succeeds portrait"
  by (simp add: handleFileSelect_def portrait_def unloadable_def noFaces_def startsWith_def
      processImage_def is_image_def succeeds_def)

section \<open>Import\<close>

lemma map_of_filter_other:
  "k \<noteq> k' \<Longrightarrow> map_of (filter (\<lambda>kv. fst kv \<noteq> k') kvs) k = map_of kvs k"
  by (induction kvs) auto

lemma fixFace_copied: "fixFace ctor face = Inr f \<Longrightarrow> copied ctor face f"
  by (auto simp: fixFace_def copied_def face_id_def face_name_def face_image_def
      map_of_filter_other split: sum.splits)

lemma accepted_fixFace: "accepted ctor face \<Longrightarrow> \<exists>f. fixFace ctor face = Inr f"
  by (auto simp: accepted_def fixFace_def split: sum.splits)

lemma map_faces_accepted:
  "list_all (accepted ctor) data \<Longrightarrow>
   \<exists>fixed. map_faces ctor data = Inr fixed \<and> list_all2 (copied ctor) data fixed"
proof (induction data)
  case Nil
  then show ?case by simp
next
  case (Cons face data)
  then obtain fixed where fixed: "map_faces ctor data = Inr fixed"
    "list_all2 (copied ctor) data fixed"
    by auto
  from Cons.prems obtain f where f: "fixFace ctor face = Inr f"
    using accepted_fixFace [of ctor face] by auto
  then have "copied ctor face f"
    by (rule fixFace_copied)
  with f fixed show ?case by simp
qed

text \<open>
  The import leaves the gallery as it was or replaces it by the whole mapped array;
  nothing in between.
\<close>

lemma import_all_or_nothing:
  "faceDatabase (importDatabase ctor inp st) = faceDatabase st
   \<or> (\<exists>xs fixed. inp = Parsed (Inr (JArr xs)) \<and> map_faces ctor xs = Inr fixed
        \<and> importDatabase ctor inp st = st\<lparr>faceDatabase := fixed\<rparr>)"
  by (auto simp: importDatabase_def split: import_input.splits sum.splits json.splits)

text \<open>
  C5. A file whose text parses to a value that is not an array (for instance the text
  \<open>{}\<close>) leaves the whole state as it was: the gallery is kept, and no error is set.
  The import is rejected, but nothing is reported.
\<close>

theorem import_non_array_unreported:
  "importDatabase ctor (Parsed (Inr (JObj kvs))) st = st
   \<and> importDatabase ctor (Parsed (Inr (JStr s))) st = st
   \<and> importDatabase ctor (Parsed (Inr (JNum x))) st = st
   \<and> importDatabase ctor (Parsed (Inr (JBool b))) st = st
   \<and> importDatabase ctor (Parsed (Inr JNull)) st = st
   \<and> error (importDatabase numbersOnly (Parsed (Inr (JObj []))) annaOnly) = []
   \<and> error (importDatabase numbersOnly (Parsed (Inl SyntaxError)) annaOnly)
       = ''Invalid database file format''"
  by (simp add: importDatabase_def annaOnly_def)

lemma map_faces_rejected:
  "\<not> list_all (accepted ctor) data \<Longrightarrow> \<exists>e. map_faces ctor data = Inl e"
proof (induction data)
  case Nil
  then show ?case by simp
next
  case (Cons face data)
  show ?case
  proof (cases "fixFace ctor face")
    case (Inl e)
    then show ?thesis by simp
  next
    case (Inr f)
    then have "accepted ctor face"
      by (auto simp: accepted_def fixFace_def split: sum.splits)
    with Cons.prems have "\<not> list_all (accepted ctor) data"
      by simp
    then obtain e where "map_faces ctor data = Inl e"
      using Cons.IH by blast
    with Inr show ?thesis by simp
  qed
qed

lemma getDescriptor_throws: "(\<exists>e. getDescriptor face = Inl e) = (face = JNull)"
  by (cases face) auto

text \<open>
  C10, as stated, fails. The array \<open>[null]\<close> is a parsed JSON array, yet its element is
  not accepted: reading \<open>descriptor\<close> of null throws, the \<open>catch\<close> reports the file as
  invalid, and the gallery is not replaced.
\<close>

theorem import_null_element_counterexample:
  "importDatabase numbersOnly (Parsed (Inr (JArr [JNull]))) annaOnly =
     annaOnly\<lparr>error := ''Invalid database file format''\<rparr>
   \<and> faceDatabase annaOnly \<noteq> []"
  by (simp add: importDatabase_def annaOnly_def fixFace_def)

text \<open>
  C10, amended. An element of a parsed JSON array is accepted exactly when it is not
  null and the constructor does not throw on its \<open>descriptor\<close> value (\<open>undefined\<close>
  when the field is absent). When every element is accepted, the import makes no further
  check: the gallery becomes the array, element by element, each with its descriptor
  replaced by what the constructor returns for it (no length is checked) and with all
  its other properties, \<open>id\<close>, \<open>name\<close> and \<open>image\<close> among them, as they were in the
  file. When some element is not accepted, the file is reported as
  \<open>Invalid database file format\<close> and nothing else changes: the gallery is kept.
\<close>

theorem import_copies_unchecked:
  "(list_all (accepted ctor) data \<longrightarrow>
      (\<exists>fixed. importDatabase ctor (Parsed (Inr (JArr data))) st = st\<lparr>faceDatabase := fixed\<rparr>
         \<and> list_all2 (copied ctor) data fixed))
   \<and> (\<not> list_all (accepted ctor) data \<longrightarrow>
        importDatabase ctor (Parsed (Inr (JArr data))) st =
          st\<lparr>error := ''Invalid database file format''\<rparr>)
   \<and> accepted ctor face =
       (face \<noteq> JNull \<and> (\<exists>v d. getDescriptor face = Inr v \<and> ctor v = Inr d))"
proof (intro conjI impI)
  assume "list_all (accepted ctor) data"
  then obtain fixed where "map_faces ctor data = Inr fixed"
    "list_all2 (copied ctor) data fixed"
    using map_faces_accepted by blast
  then show "\<exists>fixed. importDatabase ctor (Parsed (Inr (JArr data))) st
      = st\<lparr>faceDatabase := fixed\<rparr> \<and> list_all2 (copied ctor) data fixed"
    by (auto simp: importDatabase_def)
next
  assume "\<not> list_all (accepted ctor) data"
  then obtain e where "map_faces ctor data = Inl e"
    using map_faces_rejected by blast
  then show "importDatabase ctor (Parsed (Inr (JArr data))) st =
      st\<lparr>error := ''Invalid database file format''\<rparr>"
    by (simp add: importDatabase_def)
next
  show "accepted ctor face =
      (face \<noteq> JNull \<and> (\<exists>v d. getDescriptor face = Inr v \<and> ctor v = Inr d))"
    by (cases face) (auto simp: accepted_def split: sum.splits)
qed

theorem import_copies_unchecked_witness:
  "(\<exists>fixed. importDatabase numbersOnly (Parsed (Inr (JArr mixedArray))) annaOnly
          = annaOnly\<lparr>faceDatabase := fixed\<rparr>
        \<and> list_all2 (copied numbersOnly) mixedArray fixed)
   \<and> faceDatabase (importDatabase numbersOnly (Parsed (Inr (JArr mixedArray))) annaOnly) =
       [\<lparr>props = [(''id'', JNum 7), (''name'', JNull)], face_descriptor = [1, 2]\<rparr>,
        \<lparr>props = [(''note'', JStr ''no descriptor'')], face_descriptor = []\<rparr>,
        \<lparr>props = [], face_descriptor = []\<rparr>]
   \<and> importDatabase numbersOnly (Parsed (Inr (JArr (mixedArray @ [JNull])))) annaOnly =
       annaOnly\<lparr>error := ''Invalid database file format''\<rparr>"
proof -
  have a: "list_all (accepted numbersOnly) mixedArray"
    by (simp add: mixedArray_def accepted_def numbersOnly_def)
  have n: "\<not> list_all (accepted numbersOnly) (mixedArray @ [JNull])"
    by (simp add: accepted_def)
  have c: "faceDatabase (importDatabase numbersOnly (Parsed (Inr (JArr mixedArray))) annaOnly) =
       [\<lparr>props = [(''id'', JNum 7), (''name'', JNull)], face_descriptor = [1, 2]\<rparr>,
        \<lparr>props = [(''note'', JStr ''no descriptor'')], face_descriptor = []\<rparr>,
        \<lparr>props = [], face_descriptor = []\<rparr>]"
    by (simp add: importDatabase_def mixedArray_def fixFace_def numbersOnly_def)
  show ?thesis
    using import_copies_unchecked [of numbersOnly mixedArray annaOnly]
      import_copies_unchecked [of numbersOnly "mixedArray @ [JNull]" annaOnly]
      a n c
    by blast
qed

section \<open>Ids in the gallery\<close>

lemma digit_val_digit_char: "d < 10 \<Longrightarrow> digit_val (digit_char d) = d"
proof -
  assume "d < 10"
  then have "d = 0 \<or> d = 1 \<or> d = 2 \<or> d = 3 \<or> d = 4 \<or> d = 5 \<or> d = 6 \<or> d = 7 \<or> d = 8 \<or> d = 9"
    by arith
  then show ?thesis
    by (elim disjE) (simp_all add: digit_char_def digit_val_def)
qed

lemma read_nat_snoc: "read_nat (s @ [c]) = 10 * read_nat s + digit_val c"
  by (simp add: read_nat_def)

lemma read_show_nat: "read_nat (show_nat n) = n"
proof (induction n rule: show_nat.induct)
  case (1 n)
  show ?case
  proof (cases "n < 10")
    case True
    then show ?thesis
      by (subst show_nat.simps) (simp add: read_nat_def digit_val_digit_char)
  next
    case False
    then have "read_nat (show_nat (n div 10)) = n div 10"
      by (rule "1.IH")
    then show ?thesis
      using False
      by (subst show_nat.simps) (simp add: read_nat_snoc digit_val_digit_char)
  qed
qed

lemma show_nat_inj: "show_nat m = show_nat n \<Longrightarrow> m = n"
  by (metis read_show_nat)

lemma enrolled_id:
  "enrolled now (i, f) = Some face \<Longrightarrow> face_id face = Some (JStr (show_nat (now i + i)))"
  by (auto simp: enrolled_def newFace_def face_id_def split: if_splits settled.splits option.splits)

lemma new_ids:
  assumes "mono now"
  shows "distinct (map face_id (List.map_filter (enrolled now) (enumerate i files)))
    \<and> (\<forall>x \<in> set (List.map_filter (enrolled now) (enumerate i files)).
          \<exists>j. i \<le> j \<and> j < i + length files \<and> face_id x = Some (JStr (show_nat (now j + j))))"
proof (induction files arbitrary: i)
  case Nil
  then show ?case by simp
next
  case (Cons f files)
  let ?tl = "List.map_filter (enrolled now) (enumerate (Suc i) files)"
  have IHd: "distinct (map face_id ?tl)"
    and IHr: "\<And>x. x \<in> set ?tl \<Longrightarrow>
        \<exists>j. Suc i \<le> j \<and> j < Suc i + length files \<and> face_id x = Some (JStr (show_nat (now j + j)))"
    using Cons.IH [of "Suc i"] by auto
  have tl: "\<exists>j. i \<le> j \<and> j < i + length (f # files)
      \<and> face_id x = Some (JStr (show_nat (now j + j)))" if "x \<in> set ?tl" for x
  proof -
    from that obtain j where "Suc i \<le> j" "j < Suc i + length files"
      "face_id x = Some (JStr (show_nat (now j + j)))"
      using IHr by blast
    then show ?thesis
      by (intro exI [of _ j]) simp
  qed
  show ?case
  proof (cases "enrolled now (i, f)")
    case None
    then have "List.map_filter (enrolled now) (enumerate i (f # files)) = ?tl"
      by simp
    then show ?thesis
      using IHd tl by simp
  next
    case (Some face)
    then have fid: "face_id face = Some (JStr (show_nat (now i + i)))"
      by (rule enrolled_id)
    have fresh: "face_id face \<notin> set (map face_id ?tl)"
    proof
      assume "face_id face \<in> set (map face_id ?tl)"
      then obtain x where x: "x \<in> set ?tl" "face_id x = face_id face"
        by auto
      then obtain j where j: "Suc i \<le> j" "face_id x = Some (JStr (show_nat (now j + j)))"
        using IHr by blast
      with x fid have "show_nat (now j + j) = show_nat (now i + i)"
        by simp
      then have "now j + j = now i + i"
        by (rule show_nat_inj)
      moreover have "now i \<le> now j"
        using assms j(1) by (simp add: monoD)
      ultimately show False
        using j(1) by simp
    qed
    have hd: "\<exists>j. i \<le> j \<and> j < i + length (f # files)
        \<and> face_id face = Some (JStr (show_nat (now j + j)))"
      using fid by (intro exI [of _ i]) simp
    from Some have "List.map_filter (enrolled now) (enumerate i (f # files)) = face # ?tl"
      by simp
    then show ?thesis
      using IHd fresh hd tl by simp
  qed
qed

lemma map_faces_Inr:
  "map_faces ctor xs = Inr fixed \<Longrightarrow> list_all2 (copied ctor) xs fixed"
proof (induction xs arbitrary: fixed)
  case Nil
  then show ?case by simp
next
  case (Cons face xs)
  then show ?case
    by (auto split: sum.splits dest: fixFace_copied)
qed

lemma copied_ids:
  "list_all2 (copied ctor) xs fixed \<Longrightarrow>
   map face_id fixed = map (\<lambda>face. map_of (ownProps face) ''id'') xs"
  by (induction rule: list_all2_induct) (simp_all add: copied_def)

text \<open>
  C8, as stated, fails. Starting from the empty gallery, importing an array whose two
  elements carry the same \<open>id\<close> yields a gallery with two entries of that id. So do two
  batches when the clock and the file index add up to the same number: the second file
  of a batch at time 1000 and the first file of a batch at time 1001 both get the id
  \<open>1001\<close>.
\<close>

theorem id_uniqueness_counterexample:
  "distinct (map face_id (faceDatabase noFaces))
   \<and> \<not> distinct (map face_id
         (faceDatabase (importDatabase numbersOnly (Parsed (Inr (JArr twins))) noFaces)))
   \<and> \<not> distinct (map face_id
         (faceDatabase
           (state_of (handleFileSelect (\<lambda>i. 1001) [portrait]
             (state_of (handleFileSelect (\<lambda>i. 1000) [portrait, portrait] noFaces))))))"
  by (simp add: noFaces_def twins_def importDatabase_def fixFace_def numbersOnly_def
      face_id_def handleFileSelect_def portrait_def startsWith_def processImage_def
      newFace_def show_nat.simps digit_char_def)

text \<open>
  C8, amended. No operation rejects or regenerates a colliding id; uniqueness holds only
  as far as the inputs provide it. From a gallery whose ids are pairwise distinct:
  removal leaves them distinct; a batch enrolment in which every image loads leaves them
  distinct when the clock does not go backwards during the batch and none of the ids the
  batch can generate (clock reading plus file index, in decimal) is already in the
  gallery; an import leaves them distinct when it does not replace the gallery or the
  \<open>id\<close> fields of the imported array are pairwise distinct.
\<close>

theorem ids_stay_unique:
  assumes "distinct (map face_id (faceDatabase st))"
  shows "distinct (map face_id (faceDatabase (removeFace i st)))
    \<and> (list_all (\<lambda>f. \<not> stalls f) files \<and> mono now
         \<and> (\<forall>j < length files.
               Some (JStr (show_nat (now j + j))) \<notin> set (map face_id (faceDatabase st)))
        \<longrightarrow> (\<exists>st'. handleFileSelect now files st = Completes st'
                \<and> distinct (map face_id (faceDatabase st'))))
    \<and> ((\<forall>xs. inp = Parsed (Inr (JArr xs))
               \<longrightarrow> distinct (map (\<lambda>face. map_of (ownProps face) ''id'') xs))
        \<longrightarrow> distinct (map face_id (faceDatabase (importDatabase ctor inp st))))"
proof (intro conjI impI)
  show "distinct (map face_id (faceDatabase (removeFace i st)))"
    using assms by (simp add: removeFace_def distinct_map_filter)
next
  assume h: "list_all (\<lambda>f. \<not> stalls f) files \<and> mono now
         \<and> (\<forall>j < length files.
               Some (JStr (show_nat (now j + j))) \<notin> set (map face_id (faceDatabase st)))"
  let ?new = "List.map_filter (enrolled now) (enumerate 0 files)"
  from h have loop: "files_loop now files 0 [] = Resolved ?new"
    using files_loop_resolves [of files now 0 "[]"] by simp
  from h have d: "distinct (map face_id ?new)"
    and r: "\<And>x. x \<in> set ?new \<Longrightarrow>
        \<exists>j. j < length files \<and> face_id x = Some (JStr (show_nat (now j + j)))"
    using new_ids [of now 0 files] by auto
  have disj: "set (map face_id (faceDatabase st)) \<inter> set (map face_id ?new) = {}"
  proof (rule ccontr)
    assume "set (map face_id (faceDatabase st)) \<inter> set (map face_id ?new) \<noteq> {}"
    then obtain y where "y \<in> set (map face_id (faceDatabase st))" "y \<in> set (map face_id ?new)"
      by blast
    then obtain x where x: "x \<in> set ?new" "face_id x \<in> set (map face_id (faceDatabase st))"
      by (metis (no_types, lifting) image_iff list.set_map)
    then obtain j where "j < length files" "face_id x = Some (JStr (show_nat (now j + j)))"
      using r by blast
    with h x(2) show False by auto
  qed
  have both: "distinct (map face_id (faceDatabase st @ ?new))"
    using assms d disj by simp
  show "\<exists>st'. handleFileSelect now files st = Completes st'
      \<and> distinct (map face_id (faceDatabase st'))"
    using both assms by (simp add: handleFileSelect_def loop Let_def)
next
  assume h: "\<forall>xs. inp = Parsed (Inr (JArr xs))
      \<longrightarrow> distinct (map (\<lambda>face. map_of (ownProps face) ''id'') xs)"
  from import_all_or_nothing [of ctor inp st]
  show "distinct (map face_id (faceDatabase (importDatabase ctor inp st)))"
  proof
    assume "faceDatabase (importDatabase ctor inp st) = faceDatabase st"
    with assms show ?thesis by simp
  next
    assume "\<exists>xs fixed. inp = Parsed (Inr (JArr xs)) \<and> map_faces ctor xs = Inr fixed
        \<and> importDatabase ctor inp st = st\<lparr>faceDatabase := fixed\<rparr>"
    then obtain xs fixed where xs: "inp = Parsed (Inr (JArr xs))"
      "map_faces ctor xs = Inr fixed" "importDatabase ctor inp st = st\<lparr>faceDatabase := fixed\<rparr>"
      by blast
    from xs(2) have "map face_id fixed = map (\<lambda>face. map_of (ownProps face) ''id'') xs"
      by (intro copied_ids map_faces_Inr)
    with h xs(1,3) show ?thesis by simp
  qed
qed

theorem ids_stay_unique_witness:
  "distinct (map face_id (faceDatabase annaOnly))
   \<and> distinct (map face_id (faceDatabase (removeFace (Some (JStr ''1000'')) annaOnly)))
   \<and> (\<exists>st'. handleFileSelect (\<lambda>i. 2000) [portrait] annaOnly = Completes st'
         \<and> distinct (map face_id (faceDatabase st')))
   \<and> distinct (map face_id (faceDatabase
        (importDatabase numbersOnly
          (Parsed (Inr (JArr [JObj [(''id'', JStr ''7'')], JObj [(''id'', JStr ''8'')]])))
          annaOnly)))"
proof -
  have a: "distinct (map face_id (faceDatabase annaOnly))"
    by (simp add: annaOnly_def)
  have b: "list_all (\<lambda>f. \<not> stalls f) [portrait]"
    by (simp add: stalls_def portrait_def processImage_def)
  have c: "mono (\<lambda>i::nat. 2000 :: nat)"
    by (simp add: mono_def)
  have d: "\<forall>j < length [portrait].
      Some (JStr (show_nat ((\<lambda>i. 2000) j + j))) \<notin> set (map face_id (faceDatabase annaOnly))"
    by (simp add: annaOnly_def newFace_def face_id_def show_nat.simps digit_char_def)
  show ?thesis
    using ids_stay_unique
      [OF a, of "Some (JStr ''1000'')" "[portrait]" "\<lambda>i. 2000"
        "Parsed (Inr (JArr [JObj [(''id'', JStr ''7'')], JObj [(''id'', JStr ''8'')]]))"
        numbersOnly]
      a b c d
    by simp
qed

section \<open>Starting before the models are loaded\<close>

text \<open>
  C9, as stated, fails. \<open>startStream\<close> does not look at \<open>modelsLoaded\<close>: called on an
  idle session with an http URL and a \<open>play()\<close> that fulfils, it sets \<open>isPlaying\<close> and
  reports nothing, whether the models are loaded or not. And a click on the Start button
  while the models are not loaded reports nothing either.
\<close>

theorem start_without_models_counterexample:
  "isPlaying (startStream ''http://cam/live'' True Fulfils Fulfils idle)
   \<and> stream_error (startStream ''http://cam/live'' True Fulfils Fulfils idle) = []
   \<and> stream_error (startStopButton False ''http://cam/live'' True Fulfils Fulfils idle) = []"
  by (simp add: startStream_def startStopButton_def idle_def startsWith_def Let_def)

lemma not_started_run:
  "pc st = NotStarted \<Longrightarrow> started st = 0 \<Longrightarrow> started (run st evs) = 0"
proof (induction evs arbitrary: st)
  case Nil
  then show ?case by (simp add: run_Nil)
next
  case (Cons ev evs)
  have "pc (step st ev) = NotStarted \<and> started (step st ev) = 0"
    using Cons.prems by (cases ev) simp_all
  then show ?case
    unfolding run_Cons using Cons.IH by blast
qed

text \<open>
  C9, amended. While the models are not loaded, a session cannot be started: the Start
  button is disabled and the auto-start waits for \<open>modelsLoaded\<close>, so a start request
  leaves the session as it is (stopped, with no condition reported), and neither the
  render loop nor the detection loop runs.
\<close>

theorem no_start_before_models_loaded:
  assumes "\<not> models_loaded"
  shows "startStopButton models_loaded streamUrl v g p st = st
    \<and> autoStartEffect autoStart models_loaded streamUrl v g p st = st
    \<and> \<not> animationEffect models_loaded st
    \<and> pc (detect_effect models_loaded v pa en snap) = NotStarted
    \<and> started (run (detect_effect models_loaded v pa en snap) evs) = 0"
proof -
  have "pc (detect_effect models_loaded v pa en snap) = NotStarted"
    "started (detect_effect models_loaded v pa en snap) = 0"
    using assms by (simp_all add: detect_effect_def Let_def)
  then have "pc (detect_effect models_loaded v pa en snap) = NotStarted
    \<and> started (run (detect_effect models_loaded v pa en snap) evs) = 0"
    by (simp add: not_started_run)
  then show ?thesis
    using assms
    by (simp add: startStopButton_def autoStartEffect_def animationEffect_def)
qed

theorem no_start_before_models_loaded_witness:
  "startStopButton False ''http://cam/live'' True Fulfils Fulfils idle = idle
   \<and> autoStartEffect True False ''http://cam/live'' True Fulfils Fulfils idle = idle
   \<and> \<not> animationEffect False idle
   \<and> pc (detect_effect False True False False ([] :: (nat, nat) detection list)) = NotStarted
   \<and> started (run (detect_effect False True False False ([] :: (nat, nat) detection list))
        [TimerFires, DetectResolves [someDetection], TimerFires]) = 0"
  using no_start_before_models_loaded
    [where models_loaded = False and streamUrl = "''http://cam/live''" and v = True
      and g = Fulfils and p = Fulfils and st = idle and autoStart = True
      and pa = False and en = False and snap = "[] :: (nat, nat) detection list"
      and evs = "[TimerFires, DetectResolves [someDetection], TimerFires]"]
  by simp

end
